theory Spec2Isabelle
  imports Main "HOL-Library.Multiset" "HOL-Library.Code_Target_Nat"
begin

section \<open>JavaScript values used by the tracker\<close>

text \<open>
  A JavaScript string is a sequence of UTF-16 code units; a code unit is modelled as a
  natural number, so that every string the API can deliver is a value of the model.
  \<open>js\<close> embeds an ASCII literal.
\<close>

type_synonym jstring = "nat list"

definition js :: "string \<Rightarrow> jstring" where
  "js s = map of_char s"

text \<open>
  A field of a record fetched from the GitHub API is \<open>undefined\<close> (the key is missing),
  \<open>null\<close>, or holds a value. The source tells the three apart where it builds a
  \<open>Date\<close> from the field, and treats the first two alike where it tests truthiness.
\<close>

datatype 'a js_opt = Undefined | Null | Val 'a

text \<open>Truthiness of an optional string: \<open>undefined\<close>, \<open>null\<close> and \<open>""\<close> are falsy.\<close>

fun truthy_str :: "jstring js_opt \<Rightarrow> bool" where
  "truthy_str Undefined = False"
| "truthy_str Null = False"
| "truthy_str (Val s) = (s \<noteq> [])"

text \<open>Truthiness of an optional object or array: every object is truthy.\<close>

fun truthy_obj :: "'a js_opt \<Rightarrow> bool" where
  "truthy_obj Undefined = False"
| "truthy_obj Null = False"
| "truthy_obj (Val v) = True"

section \<open>Regular expressions of \<open>parsePointsFromLabels\<close>\<close>

text \<open>
  The two patterns use character classes, sequence, alternation, \<open>?\<close>, \<open>*\<close> and
  \<open>+\<close>, anchored at both ends, with no capture that is read back. For such a pattern
  \<open>RegExp.prototype.test\<close> answers whether the whole string belongs to the language of
  the pattern; \<open>rx_test\<close> decides that by derivatives.
\<close>

datatype rx = Nul | Eps | Sym "nat \<Rightarrow> bool" | Seq rx rx | Alt rx rx | Star rx

definition Plus :: "rx \<Rightarrow> rx" where
  "Plus r = Seq r (Star r)"

definition Opt :: "rx \<Rightarrow> rx" where
  "Opt r = Alt r Eps"

fun nullable :: "rx \<Rightarrow> bool" where
  "nullable Nul = False"
| "nullable Eps = True"
| "nullable (Sym P) = False"
| "nullable (Seq r s) = (nullable r \<and> nullable s)"
| "nullable (Alt r s) = (nullable r \<or> nullable s)"
| "nullable (Star r) = True"

text \<open>Derivatives are kept small: an empty branch is dropped as soon as it appears.\<close>

fun seq :: "rx \<Rightarrow> rx \<Rightarrow> rx" where
  "seq Nul s = Nul"
| "seq Eps s = s"
| "seq r s = Seq r s"

fun alt :: "rx \<Rightarrow> rx \<Rightarrow> rx" where
  "alt Nul s = s"
| "alt r Nul = r"
| "alt r s = Alt r s"

fun deriv :: "nat \<Rightarrow> rx \<Rightarrow> rx" where
  "deriv c Nul = Nul"
| "deriv c Eps = Nul"
| "deriv c (Sym P) = (if P c then Eps else Nul)"
| "deriv c (Seq r s) =
     (if nullable r then alt (seq (deriv c r) s) (deriv c s) else seq (deriv c r) s)"
| "deriv c (Alt r s) = alt (deriv c r) (deriv c s)"
| "deriv c (Star r) = seq (deriv c r) (Star r)"

fun rx_test :: "rx \<Rightarrow> jstring \<Rightarrow> bool" where
  "rx_test r [] = nullable r"
| "rx_test r (c # cs) = rx_test (deriv c r) cs"




text \<open>\<open>\d\<close>: the ten ASCII digits.\<close>

definition is_digit :: "nat \<Rightarrow> bool" where
  "is_digit c = (48 \<le> c \<and> c \<le> 57)"

text \<open>
  \<open>\s\<close>: the WhiteSpace and LineTerminator code points of ECMAScript (TAB, LF, VT, FF,
  CR, SP, NBSP, U+1680, U+2000 to U+200A, U+2028, U+2029, U+202F, U+205F, U+3000, U+FEFF).
\<close>

definition is_space :: "nat \<Rightarrow> bool" where
  "is_space c =
     ((9 \<le> c \<and> c \<le> 13) \<or> c = 32 \<or> c = 160 \<or> c = 5760 \<or> (8192 \<le> c \<and> c \<le> 8202)
      \<or> c = 8232 \<or> c = 8233 \<or> c = 8239 \<or> c = 8287 \<or> c = 12288 \<or> c = 65279)"

text \<open>The class \<open>[\s:-]\<close>.\<close>

definition is_sep :: "nat \<Rightarrow> bool" where
  "is_sep c = (is_space c \<or> c = 58 \<or> c = 45)"

text \<open>
  The \<open>i\<close> flag (without \<open>u\<close>) compares canonicalized code units. A code unit of 128 or
  more never canonicalizes to an ASCII one, so against the ASCII letters of these patterns
  only the ASCII case pairs are equal.
\<close>

definition canonicalize :: "nat \<Rightarrow> nat" where
  "canonicalize c = (if 97 \<le> c \<and> c \<le> 122 then c - 32 else c)"

definition ci :: "char \<Rightarrow> rx" where
  "ci ch = Sym (\<lambda>c. canonicalize c = canonicalize (of_char ch))"

fun word :: "string \<Rightarrow> rx" where
  "word [] = Eps"
| "word (ch # s) = Seq (ci ch) (word s)"

text \<open>\<open>/^(\d+)[\s:-]*(points?|poins|pts)?$/i\<close>\<close>

definition points_suffix_rx :: rx where
  "points_suffix_rx =
     Seq (Plus (Sym is_digit))
       (Seq (Star (Sym is_sep))
          (Opt (Alt (Seq (word ''point'') (Opt (ci CHR ''s'')))
                 (Alt (word ''poins'') (word ''pts'')))))"

text \<open>\<open>/^(pts|points?|poins)[\s:-]*(\d+)$/i\<close>\<close>

definition points_prefix_rx :: rx where
  "points_prefix_rx =
     Seq (Alt (word ''pts'')
            (Alt (Seq (word ''point'') (Opt (ci CHR ''s''))) (word ''poins'')))
       (Seq (Star (Sym is_sep)) (Plus (Sym is_digit)))"

section \<open>Label points parser (\<open>api.js\<close>)\<close>

record label =
  name :: jstring
  color :: jstring

text \<open>The callback of \<open>labels.find\<close>.\<close>

definition is_point_label :: "label \<Rightarrow> bool" where
  "is_point_label l =
     (if rx_test points_suffix_rx (name l) then True
      else if rx_test points_prefix_rx (name l) then True
      else False)"

text \<open>\<open>name.match(/\d+/)\<close>: the leftmost, longest run of digits, or \<open>null\<close>.\<close>

definition match_digits :: "jstring \<Rightarrow> jstring option" where
  "match_digits s =
     (let r = dropWhile (\<lambda>c. \<not> is_digit c) s
      in if r = [] then None else Some (takeWhile is_digit r))"

text \<open>
  \<open>parseInt(ds, 10)\<close> on a run of digits. Numbers are modelled as unbounded integers;
  a JavaScript Number agrees with the model up to \<open>2 ^ 53\<close>.
\<close>

definition parseInt10 :: "jstring \<Rightarrow> int" where
  "parseInt10 ds = foldl (\<lambda>n c. 10 * n + (int c - 48)) 0 ds"

definition parsePointsFromLabels :: "label list js_opt \<Rightarrow> int" where
  "parsePointsFromLabels labels =
     (case labels of
        Undefined \<Rightarrow> 0
      | Null \<Rightarrow> 0
      | Val ls \<Rightarrow>
          if ls = [] then 0
          else (case find is_point_label ls of
                  None \<Rightarrow> 0
                | Some pointLabel \<Rightarrow>
                    (case match_digits (name pointLabel) of
                       Some m \<Rightarrow> parseInt10 m
                     | None \<Rightarrow> 0)))"

text \<open>A label as the examples of the specification write it: only the name is given.\<close>

definition named :: "string \<Rightarrow> label" where
  "named s = \<lparr>name = js s, color = []\<rparr>"







section \<open>Dates\<close>

text \<open>
  A \<open>Date\<close> holds a time value: milliseconds since 1970-01-01T00:00:00Z, or \<open>NaN\<close> (an
  invalid date), modelled as \<open>None\<close>. What the host supplies is a parameter of the model:
  \<open>Date.parse\<close> (its result on strings outside the ISO format is implementation-defined)
  and the offset of the local time zone, both as a function of a UTC time value
  (\<open>LocalTZA(t, true)\<close>) and of a local time value (\<open>LocalTZA(t, false)\<close>).
\<close>

record js_env =
  date_parse :: "jstring \<Rightarrow> int option"
  tza_utc :: "int \<Rightarrow> int"
  tza_local :: "int \<Rightarrow> int"

definition msPerDay :: int where
  "msPerDay = 86400000"

definition TimeClip :: "int \<Rightarrow> int option" where
  "TimeClip t = (if \<bar>t\<bar> > 8640000000000000 then None else Some t)"

text \<open>
  \<open>new Date(v)\<close> for a field \<open>v\<close> of a fetched record: \<open>undefined\<close> gives an invalid
  date, \<open>null\<close> converts to the number 0 and gives the epoch, a string is parsed.
\<close>

fun new_Date :: "js_env \<Rightarrow> jstring js_opt \<Rightarrow> int option" where
  "new_Date env Undefined = None"
| "new_Date env Null = Some 0"
| "new_Date env (Val s) = (case date_parse env s of None \<Rightarrow> None | Some t \<Rightarrow> TimeClip t)"

text \<open>\<open>a >= b\<close> and \<open>a <= b\<close> on dates compare the time values; with \<open>NaN\<close> both are false.\<close>

fun date_ge :: "int option \<Rightarrow> int option \<Rightarrow> bool" where
  "date_ge (Some a) (Some b) = (a \<ge> b)"
| "date_ge _ _ = False"

fun date_le :: "int option \<Rightarrow> int option \<Rightarrow> bool" where
  "date_le (Some a) (Some b) = (a \<le> b)"
| "date_le _ _ = False"

text \<open>
  The civil calendar: the day number of a date (days since 1970-01-01, proleptic Gregorian)
  and back, by era arithmetic (an era is 400 years, 146097 days).
\<close>

definition is_leap :: "int \<Rightarrow> bool" where
  "is_leap y = (y mod 4 = 0 \<and> (y mod 100 \<noteq> 0 \<or> y mod 400 = 0))"

definition days_in_month :: "int \<Rightarrow> int \<Rightarrow> int" where
  "days_in_month y m =
     (if m = 2 then (if is_leap y then 29 else 28)
      else if m = 4 \<or> m = 6 \<or> m = 9 \<or> m = 11 then 30 else 31)"

definition days_from_civil :: "int \<Rightarrow> int \<Rightarrow> int \<Rightarrow> int" where
  "days_from_civil y m d =
     (let y' = (if m \<le> 2 then y - 1 else y);
          era = y' div 400;
          yoe = y' - era * 400;
          doy = (153 * (if m > 2 then m - 3 else m + 9) + 2) div 5 + d - 1;
          doe = yoe * 365 + yoe div 4 - yoe div 100 + doy
      in era * 146097 + doe - 719468)"

definition civil_from_days :: "int \<Rightarrow> int \<times> int \<times> int" where
  "civil_from_days z =
     (let z' = z + 719468;
          era = z' div 146097;
          doe = z' - era * 146097;
          yoe = (doe - doe div 1460 + doe div 36524 - doe div 146096) div 365;
          doy = doe - (365 * yoe + yoe div 4 - yoe div 100);
          mp = (5 * doy + 2) div 153;
          d = doy - (153 * mp + 2) div 5 + 1;
          m = (if mp < 10 then mp + 3 else mp - 9);
          y = yoe + era * 400
      in (if m \<le> 2 then y + 1 else y, m, d))"

text \<open>\<open>pad w n\<close>: the last \<open>w\<close> decimal digits of \<open>n\<close>.\<close>

fun pad :: "nat \<Rightarrow> int \<Rightarrow> jstring" where
  "pad 0 n = []"
| "pad (Suc w) n = pad w (n div 10) @ [nat (48 + n mod 10)]"

text \<open>
  \<open>d.toISOString().split('T')[0]\<close> on a valid date: the UTC calendar date, the year with
  four digits, or with a sign and six digits outside 0 to 9999.
\<close>

definition iso_year :: "int \<Rightarrow> jstring" where
  "iso_year y =
     (if 0 \<le> y \<and> y \<le> 9999 then pad 4 y
      else if y < 0 then 45 # pad 6 (- y) else 43 # pad 6 y)"

definition iso_date :: "int \<Rightarrow> jstring" where
  "iso_date t =
     (case civil_from_days (t div msPerDay) of
        (y, m, d) \<Rightarrow> iso_year y @ [45] @ pad 2 m @ [45] @ pad 2 d)"

text \<open>
  An instance of \<open>Date.parse\<close> for concrete evaluation: the ISO forms \<open>YYYY-MM-DD\<close> and
  \<open>YYYY-MM-DDTHH:mm:ssZ\<close> (the form of the GitHub API) with fields in range, both UTC.
  Other strings are left unparsed here.
\<close>

definition digits_val :: "jstring \<Rightarrow> int option" where
  "digits_val s = (if s \<noteq> [] \<and> list_all is_digit s then Some (parseInt10 s) else None)"

definition parse_ymd :: "jstring \<Rightarrow> int option" where
  "parse_ymd s =
     (if length s = 10 \<and> s ! 4 = 45 \<and> s ! 7 = 45 then
        (case (digits_val (take 4 s), digits_val (take 2 (drop 5 s)), digits_val (drop 8 s)) of
           (Some y, Some m, Some d) \<Rightarrow>
             if 1 \<le> m \<and> m \<le> 12 \<and> 1 \<le> d \<and> d \<le> days_in_month y m
             then Some (days_from_civil y m d) else None
         | _ \<Rightarrow> None)
      else None)"

definition parse_hms :: "jstring \<Rightarrow> int option" where
  "parse_hms s =
     (if length s = 8 \<and> s ! 2 = 58 \<and> s ! 5 = 58 then
        (case (digits_val (take 2 s), digits_val (take 2 (drop 3 s)), digits_val (drop 6 s)) of
           (Some h, Some mi, Some se) \<Rightarrow>
             if h \<le> 23 \<and> mi \<le> 59 \<and> se \<le> 59
             then Some (((h * 60 + mi) * 60 + se) * 1000) else None
         | _ \<Rightarrow> None)
      else None)"

definition parse_iso :: "jstring \<Rightarrow> int option" where
  "parse_iso s =
     (if length s = 10 then
        (case parse_ymd s of Some day \<Rightarrow> Some (day * msPerDay) | None \<Rightarrow> None)
      else if length s = 20 \<and> s ! 10 = 84 \<and> s ! 19 = 90 then
        (case (parse_ymd (take 10 s), parse_hms (take 8 (drop 11 s))) of
           (Some day, Some ms) \<Rightarrow> Some (day * msPerDay + ms)
         | _ \<Rightarrow> None)
      else None)"

datatype js_error = RangeError

text \<open>\<open>toISOString\<close> throws a \<open>RangeError\<close> on an invalid date.\<close>

definition toISODate :: "int option \<Rightarrow> js_error + jstring" where
  "toISODate d = (case d of None \<Rightarrow> Inl RangeError | Some t \<Rightarrow> Inr (iso_date t))"

text \<open>
  \<open>curr.setDate(curr.getDate() + 1)\<close>: both calls work on local time. The local time value
  moves to the same time of the next local calendar day (\<open>MakeDay\<close> with the day of the
  month plus one is the next day number), and is converted back to UTC with the offset in
  force at that local time.
\<close>

definition setDate_next :: "js_env \<Rightarrow> int option \<Rightarrow> int option" where
  "setDate_next env currDate =
     (case currDate of
        None \<Rightarrow> None
      | Some t \<Rightarrow>
          (let local = t + tza_utc env t;
               newDate = local + msPerDay
           in TimeClip (newDate - tza_local env newDate)))"

text \<open>Two hosts: UTC, and Central European Time with the summer time of 2026
  (from 2026-03-29T01:00Z to 2026-10-25T01:00Z the offset is two hours, else one).\<close>

definition env_utc :: js_env where
  "env_utc = \<lparr>date_parse = parse_iso, tza_utc = (\<lambda>t. 0), tza_local = (\<lambda>t. 0)\<rparr>"

definition env_berlin :: js_env where
  "env_berlin =
     \<lparr>date_parse = parse_iso,
      tza_utc = (\<lambda>t. if 1774746000000 \<le> t \<and> t < 1792890000000 then 7200000 else 3600000),
      tza_local = (\<lambda>t. if 1774746000000 + 7200000 \<le> t \<and> t < 1792890000000 + 7200000
                        then 7200000 else 3600000)\<rparr>"

section \<open>Issues and the normalizer (\<open>api.js\<close>)\<close>

record user =
  login :: jstring
  avatar_url :: jstring
  html_url :: jstring

text \<open>An issue as the Issues API returns it (the fields the tracker reads).\<close>

record raw_issue =
  number :: int
  title :: jstring
  state :: jstring
  created_at :: "jstring js_opt"
  closed_at :: "jstring js_opt"
  assignee :: "user js_opt"
  labels :: "label list js_opt"
  comments :: int
  pull_request :: "unit js_opt"

text \<open>\<open>{...issue, isPR, points}\<close>\<close>

record issue = raw_issue +
  isPR :: bool
  points :: int

definition processIssues :: "js_env \<Rightarrow> raw_issue list \<Rightarrow> int option \<Rightarrow> issue list" where
  "processIssues env issues thresholdDate =
     (let processedIssues =
            map (\<lambda>issue. raw_issue.extend issue
                   (issue.fields (truthy_obj (pull_request issue))
                      (parsePointsFromLabels (labels issue)))) issues
      in filter (\<lambda>issue.
            if state issue = js ''closed''
            then (let closedDate = new_Date env (closed_at issue)
                  in date_ge closedDate thresholdDate)
            else True) processedIssues)"

section \<open>Projects\<close>

text \<open>A pull request as the Pulls API returns it.\<close>

record pull =
  pr_number :: int
  pr_state :: jstring
  pr_created_at :: "jstring js_opt"
  pr_closed_at :: "jstring js_opt"
  pr_merged_at :: "jstring js_opt"

record stats =
  st_open :: int
  st_closed :: int
  st_assigned :: int
  st_total :: int
  st_points :: int
  st_comments :: int

text \<open>
  A project as \<open>fetchAllProjectsData\<close> builds it; \<open>applyFilters\<close> adds \<open>filteredIssues\<close>
  and \<open>filteredStats\<close>, which are \<open>Undefined\<close> until then.
\<close>

record project =
  owner :: jstring
  repo :: jstring
  project_name :: jstring
  order :: "int js_opt"
  issues :: "issue list"
  prs :: "pull list js_opt"
  stats :: stats
  filteredIssues :: "issue list js_opt"
  filteredStats :: "stats js_opt"

text \<open>\<open>xs.reduce((sum, i) => sum + f(i), 0)\<close>\<close>

definition reduce_sum :: "('a \<Rightarrow> int) \<Rightarrow> 'a list \<Rightarrow> int" where
  "reduce_sum f xs = foldl (\<lambda>sum i. sum + f i) 0 xs"

section \<open>Filters (filters module, \<open>app.js\<close>)\<close>

record filters =
  f_status :: jstring
  f_assignment :: jstring
  f_comments :: jstring
  f_points :: jstring
  f_sortBy :: jstring
  f_sortOrder :: jstring
  f_contribSort :: jstring

definition defaultFilters :: filters where
  "defaultFilters =
     \<lparr>f_status = js ''open'', f_assignment = js ''all'', f_comments = js ''all'',
      f_points = js ''all'', f_sortBy = js ''order'', f_sortOrder = js ''asc'',
      f_contribSort = js ''points''\<rparr>"

definition filterIssues :: "issue list \<Rightarrow> filters \<Rightarrow> issue list" where
  "filterIssues issueList filters =
     filter (\<lambda>issue.
        if f_status filters \<noteq> js ''all'' \<and> f_status filters = js ''open'' \<and>
           state issue \<noteq> js ''open'' then False
        else if f_status filters \<noteq> js ''all'' \<and> f_status filters = js ''closed'' \<and>
           state issue \<noteq> js ''closed'' then False
        else if f_assignment filters \<noteq> js ''all'' \<and> f_assignment filters = js ''assigned'' \<and>
           \<not> truthy_obj (assignee issue) then False
        else if f_assignment filters \<noteq> js ''all'' \<and> f_assignment filters = js ''unassigned'' \<and>
           truthy_obj (assignee issue) then False
        else if f_comments filters \<noteq> js ''all'' \<and> f_comments filters = js ''has-comments'' \<and>
           comments issue = 0 then False
        else if f_comments filters \<noteq> js ''all'' \<and> f_comments filters = js ''no-comments'' \<and>
           comments issue > 0 then False
        else if f_points filters = js ''has-points'' \<and> points issue = 0 then False
        else True) issueList"

definition stats_of :: "issue list \<Rightarrow> stats" where
  "stats_of issueList =
     \<lparr>st_open = int (length (filter (\<lambda>i. state i = js ''open'') issueList)),
      st_closed = int (length (filter (\<lambda>i. state i = js ''closed'') issueList)),
      st_assigned = int (length (filter (\<lambda>i. truthy_obj (assignee i)) issueList)),
      st_total = int (length issueList),
      st_points = reduce_sum points issueList,
      st_comments = reduce_sum comments issueList\<rparr>"

text \<open>
  \<open>applyFilters\<close> is modelled over an explicit store of project objects, so that what it
  writes is visible: a reference is an index into the store, \<open>{...project, filteredIssues,
  filteredStats}\<close> allocates a new object, and \<open>projects.map\<close> returns the new references.
\<close>

type_synonym store = "project list"

definition applyFilters_step :: "filters \<Rightarrow> store \<times> nat list \<Rightarrow> nat \<Rightarrow> store \<times> nat list" where
  "applyFilters_step filters acc r =
     (case acc of (h, out) \<Rightarrow>
        let project = h ! r;
            fIssues = filterIssues (issues project) filters;
            fStats = stats_of fIssues
        in (h @ [project\<lparr>filteredIssues := Val fIssues, filteredStats := Val fStats\<rparr>],
            out @ [length h]))"

definition applyFilters :: "store \<Rightarrow> nat list \<Rightarrow> filters \<Rightarrow> store \<times> nat list" where
  "applyFilters h projects filters = foldl (applyFilters_step filters) (h, []) projects"

text \<open>\<open>{...project, filteredIssues, filteredStats}\<close> as a function of the project read.\<close>

definition extend_project :: "filters \<Rightarrow> project \<Rightarrow> project" where
  "extend_project filters project =
     project\<lparr>filteredIssues := Val (filterIssues (issues project) filters),
              filteredStats := Val (stats_of (filterIssues (issues project) filters))\<rparr>"

section \<open>Global statistics (filters module, \<open>app.js\<close>)\<close>

record global_stats =
  g_open :: int
  g_withComments :: int
  g_withAssignees :: int
  g_closedSince :: int
  g_totalPoints :: int
  g_collectedPoints :: int

definition closedSinceThreshold :: "js_env \<Rightarrow> jstring js_opt \<Rightarrow> issue list \<Rightarrow> issue list" where
  "closedSinceThreshold env thresholdDate allIssues =
     filter (\<lambda>i.
        if state i \<noteq> js ''closed'' \<or> \<not> truthy_str (closed_at i) then False
        else date_ge (new_Date env (closed_at i)) (new_Date env thresholdDate)) allIssues"

definition calculateGlobalStats :: "js_env \<Rightarrow> project list \<Rightarrow> jstring js_opt \<Rightarrow> global_stats" where
  "calculateGlobalStats env projects thresholdDate =
     (let allIssues = concat (map issues projects);
          openIssues = filter (\<lambda>i. state i = js ''open'') allIssues;
          issuesWithComments = filter (\<lambda>i. comments i > 0) allIssues;
          issuesWithAssignees = filter (\<lambda>i. truthy_obj (assignee i)) allIssues;
          closedSince = closedSinceThreshold env thresholdDate allIssues;
          totalPoints = reduce_sum points allIssues;
          collectedPoints = reduce_sum points closedSince
      in \<lparr>g_open = int (length openIssues),
          g_withComments = int (length issuesWithComments),
          g_withAssignees = int (length issuesWithAssignees),
          g_closedSince = int (length closedSince),
          g_totalPoints = totalPoints,
          g_collectedPoints = collectedPoints\<rparr>)"

section \<open>Contributor leaderboard (filters module, \<open>app.js\<close>)\<close>

text \<open>\<open>{...issue, projectName: project.name, owner: project.owner, repo: project.repo}\<close>\<close>

record listed_issue = issue +
  projectName :: jstring
  issue_owner :: jstring
  issue_repo :: jstring

record contributor =
  username :: jstring
  contrib_avatar_url :: jstring
  contrib_html_url :: jstring
  assignedIssues :: "listed_issue list"
  closedIssuesWithPoints :: "listed_issue list"
  totalPoints :: int
  closedCount :: int
  assignedCount :: int

text \<open>
  The \<open>Map\<close> of contributors is a list of entries in insertion order, one per key:
  \<open>has\<close> looks a key up, \<open>set\<close> of an absent key appends, and the object that \<open>get\<close>
  returns is updated in place.
\<close>

definition map_has :: "contributor list \<Rightarrow> jstring \<Rightarrow> bool" where
  "map_has contributors u = list_ex (\<lambda>c. username c = u) contributors"

definition map_update :: "jstring \<Rightarrow> (contributor \<Rightarrow> contributor) \<Rightarrow> contributor list \<Rightarrow> contributor list" where
  "map_update u f contributors = map (\<lambda>c. if username c = u then f c else c) contributors"

definition list_issue :: "project \<Rightarrow> issue \<Rightarrow> listed_issue" where
  "list_issue project i =
     issue.extend i (listed_issue.fields (project_name project) (owner project) (repo project))"

text \<open>What the loop body does to the contributor of the issue.\<close>

definition credit :: "js_env \<Rightarrow> jstring js_opt \<Rightarrow> project \<Rightarrow> issue \<Rightarrow> contributor \<Rightarrow> contributor" where
  "credit env thresholdDate project i contributor =
     (let c1 = contributor\<lparr>assignedIssues := assignedIssues contributor @ [list_issue project i],
                           assignedCount := assignedCount contributor + 1\<rparr>
      in if state i = js ''closed'' \<and> truthy_str (closed_at i) then
           (let closedDate = new_Date env (closed_at i)
            in if date_ge closedDate (new_Date env thresholdDate) then
                 (let c2 = (if points i > 0
                            then c1\<lparr>closedIssuesWithPoints :=
                                      closedIssuesWithPoints c1 @ [list_issue project i],
                                    totalPoints := totalPoints c1 + points i\<rparr>
                            else c1)
                  in c2\<lparr>closedCount := closedCount c2 + 1\<rparr>)
               else c1)
         else c1)"

definition track_issue :: "js_env \<Rightarrow> jstring js_opt \<Rightarrow> project \<Rightarrow> contributor list \<Rightarrow> issue \<Rightarrow> contributor list" where
  "track_issue env thresholdDate project contributors i =
     (case assignee i of
        Val a \<Rightarrow>
          (let u = login a;
               contributors1 =
                 (if \<not> map_has contributors u
                  then contributors @
                         [\<lparr>username = u, contrib_avatar_url = avatar_url a,
                           contrib_html_url = html_url a, assignedIssues = [],
                           closedIssuesWithPoints = [], totalPoints = 0, closedCount = 0,
                           assignedCount = 0\<rparr>]
                  else contributors)
           in map_update u (credit env thresholdDate project i) contributors1)
      | _ \<Rightarrow> contributors)"

definition collect_contributors :: "js_env \<Rightarrow> project list \<Rightarrow> jstring js_opt \<Rightarrow> contributor list" where
  "collect_contributors env projects thresholdDate =
     foldl (\<lambda>contributors project.
              foldl (track_issue env thresholdDate project) contributors (issues project))
       [] projects"

text \<open>
  \<open>Array.prototype.sort\<close> with a comparison function. ECMAScript requires the sort to be
  stable, which fixes the result for a consistent comparator; it is modelled by insertion
  from the right, an element going before the first one it does not compare greater than.
\<close>

fun place :: "('a \<Rightarrow> 'a \<Rightarrow> int) \<Rightarrow> 'a \<Rightarrow> 'a list \<Rightarrow> 'a list" where
  "place cmp x [] = [x]"
| "place cmp x (y # ys) = (if cmp x y \<le> 0 then x # y # ys else y # place cmp x ys)"

definition array_sort :: "('a \<Rightarrow> 'a \<Rightarrow> int) \<Rightarrow> 'a list \<Rightarrow> 'a list" where
  "array_sort cmp xs = foldr (place cmp) xs []"

definition buildContributorLeaderboard :: "js_env \<Rightarrow> project list \<Rightarrow> jstring js_opt \<Rightarrow> jstring \<Rightarrow> contributor list" where
  "buildContributorLeaderboard env projects thresholdDate sortBy =
     (let leaderboard = collect_contributors env projects thresholdDate
      in if sortBy = js ''points''
         then array_sort (\<lambda>a b. totalPoints b - totalPoints a) leaderboard
         else if sortBy = js ''closed''
         then array_sort (\<lambda>a b. closedCount b - closedCount a) leaderboard
         else if sortBy = js ''assigned''
         then array_sort (\<lambda>a b. assignedCount b - assignedCount a) leaderboard
         else leaderboard)"

text \<open>
  The order in which contributors are first met: the assignee logins of all issues, project
  by project, each kept at its first occurrence.
\<close>

definition assignee_logins :: "project list \<Rightarrow> jstring list" where
  "assignee_logins projects =
     concat (map (\<lambda>i. case assignee i of Val a \<Rightarrow> [login a] | _ \<Rightarrow> [])
               (concat (map issues projects)))"

definition encounter_order :: "jstring list \<Rightarrow> jstring list" where
  "encounter_order us = rev (remdups (rev us))"

text \<open>Vocabulary for the properties of the leaderboard.\<close>

definition assigned_to :: "jstring \<Rightarrow> issue \<Rightarrow> bool" where
  "assigned_to u i = (case assignee i of Val a \<Rightarrow> login a = u | _ \<Rightarrow> False)"

definition tagged :: "project list \<Rightarrow> (project \<times> issue) list" where
  "tagged projects = concat (map (\<lambda>p. map (Pair p) (issues p)) projects)"

definition logins_of :: "issue list \<Rightarrow> jstring list" where
  "logins_of xs = concat (map (\<lambda>i. case assignee i of Val a \<Rightarrow> [login a] | _ \<Rightarrow> []) xs)"

definition fresh_contributor :: "user \<Rightarrow> contributor" where
  "fresh_contributor a =
     \<lparr>username = login a, contrib_avatar_url = avatar_url a, contrib_html_url = html_url a,
      assignedIssues = [], closedIssuesWithPoints = [], totalPoints = 0, closedCount = 0,
      assignedCount = 0\<rparr>"

definition selected_key :: "jstring \<Rightarrow> contributor \<Rightarrow> int" where
  "selected_key sortBy c =
     (if sortBy = js ''points'' then totalPoints c
      else if sortBy = js ''closed'' then closedCount c
      else assignedCount c)"

section \<open>Daily activity counts (filters module, \<open>app.js\<close>)\<close>

text \<open>Each series is an object used as a dictionary from date strings to counts.\<close>

record daily_counts =
  assigned :: "jstring \<rightharpoonup> int"
  closed :: "jstring \<rightharpoonup> int"
  merged_prs :: "jstring \<rightharpoonup> int"
  open_prs :: "jstring \<rightharpoonup> int"

text \<open>
  The initialisation loop \<open>while (curr <= end)\<close>. Whether it ends depends on the host's time
  zone, so the result is optional: \<open>None\<close> stands for a loop that does not return.
\<close>

partial_function (option) init_days ::
  "js_env \<Rightarrow> int option \<Rightarrow> int option \<Rightarrow> daily_counts \<Rightarrow> (js_error + daily_counts) option"
where
  "init_days env currDate endDate data =
     (if date_le currDate endDate then
        (case toISODate currDate of
           Inl e \<Rightarrow> Some (Inl e)
         | Inr dateStr \<Rightarrow>
             init_days env (setDate_next env currDate) endDate
               (data\<lparr>assigned := (assigned data)(dateStr \<mapsto> 0),
                     closed := (closed data)(dateStr \<mapsto> 0),
                     merged_prs := (merged_prs data)(dateStr \<mapsto> 0),
                     open_prs := (open_prs data)(dateStr \<mapsto> 0)\<rparr>))
      else Some (Inr data))"

declare init_days.simps [code]

text \<open>\<open>if (series[dateStr] !== undefined) series[dateStr]++\<close>\<close>

definition bump :: "(jstring \<rightharpoonup> int) \<Rightarrow> jstring \<Rightarrow> (jstring \<rightharpoonup> int)" where
  "bump series dateStr =
     (case series dateStr of None \<Rightarrow> series | Some n \<Rightarrow> series(dateStr \<mapsto> n + 1))"

text \<open>\<open>xs.forEach(f)\<close> for a body that updates the counts or throws.\<close>

fun forEach :: "('s \<Rightarrow> 'a \<Rightarrow> js_error + 's) \<Rightarrow> 's \<Rightarrow> 'a list \<Rightarrow> js_error + 's" where
  "forEach f s [] = Inr s"
| "forEach f s (x # xs) = (case f s x of Inl e \<Rightarrow> Inl e | Inr s' \<Rightarrow> forEach f s' xs)"

definition count_issue :: "js_env \<Rightarrow> daily_counts \<Rightarrow> issue \<Rightarrow> js_error + daily_counts" where
  "count_issue env data i =
     (case (if truthy_str (created_at i) then
              (case toISODate (new_Date env (created_at i)) of
                 Inl e \<Rightarrow> Inl e
               | Inr dateStr \<Rightarrow> Inr (data\<lparr>assigned := bump (assigned data) dateStr\<rparr>))
            else Inr data) of
        Inl e \<Rightarrow> Inl e
      | Inr data1 \<Rightarrow>
          if state i = js ''closed'' \<and> truthy_str (closed_at i) then
            (case toISODate (new_Date env (closed_at i)) of
               Inl e \<Rightarrow> Inl e
             | Inr dateStr \<Rightarrow> Inr (data1\<lparr>closed := bump (closed data1) dateStr\<rparr>))
          else Inr data1)"

definition count_pr :: "js_env \<Rightarrow> daily_counts \<Rightarrow> pull \<Rightarrow> js_error + daily_counts" where
  "count_pr env data pr =
     (case toISODate (new_Date env (pr_created_at pr)) of
        Inl e \<Rightarrow> Inl e
      | Inr dateCreated \<Rightarrow>
          if pr_state pr = js ''closed'' \<and> truthy_str (pr_closed_at pr) then
            (case toISODate (new_Date env (pr_closed_at pr)) of
               Inl e \<Rightarrow> Inl e
             | Inr dateClosed \<Rightarrow> Inr (data\<lparr>merged_prs := bump (merged_prs data) dateClosed\<rparr>))
          else if pr_state pr = js ''open'' then
            Inr (data\<lparr>open_prs := bump (open_prs data) dateCreated\<rparr>)
          else Inr data)"

definition count_project :: "js_env \<Rightarrow> daily_counts \<Rightarrow> project \<Rightarrow> js_error + daily_counts" where
  "count_project env data project =
     (case forEach (count_issue env) data (issues project) of
        Inl e \<Rightarrow> Inl e
      | Inr data1 \<Rightarrow>
          (case prs project of
             Val ps \<Rightarrow> forEach (count_pr env) data1 ps
           | _ \<Rightarrow> Inr data1))"

definition calculateDailyCounts ::
  "js_env \<Rightarrow> project list \<Rightarrow> jstring \<Rightarrow> jstring \<Rightarrow> (js_error + daily_counts) option"
where
  "calculateDailyCounts env projects startDateStr endDateStr =
     (let data = \<lparr>assigned = Map.empty, closed = Map.empty, merged_prs = Map.empty,
                   open_prs = Map.empty\<rparr>;
          start = new_Date env (Val startDateStr);
          endDate = new_Date env (Val endDateStr);
          currDate = start
      in case init_days env currDate endDate data of
           None \<Rightarrow> None
         | Some (Inl e) \<Rightarrow> Some (Inl e)
         | Some (Inr data1) \<Rightarrow> Some (forEach (count_project env) data1 projects))"

text \<open>Vocabulary for the properties of the daily counts.\<close>

definition all_prs :: "project list \<Rightarrow> pull list" where
  "all_prs projects = concat (map (\<lambda>p. case prs p of Val ps \<Rightarrow> ps | _ \<Rightarrow> []) projects)"


text \<open>
  The host's clock advances when a step of the loop moves the time value forward: the offset
  read at the next local day exceeds the current one by less than a day.
\<close>

definition clock_advances :: "js_env \<Rightarrow> bool" where
  "clock_advances env \<longleftrightarrow>
     (\<forall>t. tza_local env (t + tza_utc env t + msPerDay) - tza_utc env t < msPerDay)"

text \<open>The timestamps that the counting loops turn into date strings are valid dates.\<close>

definition issue_dates_ok :: "js_env \<Rightarrow> issue \<Rightarrow> bool" where
  "issue_dates_ok env i \<longleftrightarrow>
     (if truthy_str (created_at i) then new_Date env (created_at i) \<noteq> None else True) \<and>
     (if state i = js ''closed'' \<and> truthy_str (closed_at i)
      then new_Date env (closed_at i) \<noteq> None else True)"

definition pr_dates_ok :: "js_env \<Rightarrow> pull \<Rightarrow> bool" where
  "pr_dates_ok env pr \<longleftrightarrow>
     new_Date env (pr_created_at pr) \<noteq> None \<and>
     (if pr_state pr = js ''closed'' \<and> truthy_str (pr_closed_at pr)
      then new_Date env (pr_closed_at pr) \<noteq> None else True)"

definition dates_ok :: "js_env \<Rightarrow> project list \<Rightarrow> bool" where
  "dates_ok env projects \<longleftrightarrow>
     list_all (\<lambda>p. list_all (issue_dates_ok env) (issues p) \<and>
                    list_all (pr_dates_ok env) (all_prs [p])) projects"

definition add_count :: "(jstring \<rightharpoonup> int) \<Rightarrow> jstring \<Rightarrow> int \<Rightarrow> int option" where
  "add_count series k c = (case series k of None \<Rightarrow> None | Some n \<Rightarrow> Some (n + c))"

text \<open>
  The days from \<open>t0\<close> to \<open>t1\<close> in steps of one day, as date strings; and a record of counts
  whose four series have one key set.
\<close>

definition days_between :: "int \<Rightarrow> int \<Rightarrow> jstring set" where
  "days_between t0 t1 = {iso_date (t0 + k * msPerDay) | k. 0 \<le> k \<and> t0 + k * msPerDay \<le> t1}"

definition same_keys :: "daily_counts \<Rightarrow> jstring set \<Rightarrow> bool" where
  "same_keys data K \<longleftrightarrow>
     dom (assigned data) = K \<and> dom (closed data) = K \<and> dom (merged_prs data) = K \<and>
     dom (open_prs data) = K"

definition keys_of :: "daily_counts \<Rightarrow> jstring set \<times> jstring set \<times> jstring set \<times> jstring set" where
  "keys_of data =
     (dom (assigned data), dom (closed data), dom (merged_prs data), dom (open_prs data))"

section \<open>Example data\<close>

text \<open>A closed issue whose \<open>closed_at\<close> is \<open>null\<close>.\<close>

definition undated_closed :: raw_issue where
  "undated_closed =
     \<lparr>number = 7, title = js ''closed, no date'', state = js ''closed'',
      created_at = Val (js ''2026-01-01T00:00:00Z''), closed_at = Null, assignee = Null,
      labels = Val [], comments = 0, pull_request = Undefined\<rparr>"

text \<open>A small project: six fetched issues, normalized with the threshold 2026-01-30.\<close>

definition amal :: user where
  "amal = \<lparr>login = js ''amal'', avatar_url = js ''a.png'', html_url = js ''https://github.com/amal''\<rparr>"

definition basil :: user where
  "basil = \<lparr>login = js ''basil'', avatar_url = js ''b.png'', html_url = js ''https://github.com/basil''\<rparr>"

definition demo_raw :: "raw_issue list" where
  "demo_raw =
     [\<lparr>number = 1, title = js ''one'', state = js ''open'',
       created_at = Val (js ''2026-02-01''), closed_at = Null, assignee = Null,
       labels = Val [named ''50pts''], comments = 0, pull_request = Undefined\<rparr>,
      \<lparr>number = 2, title = js ''two'', state = js ''closed'',
       created_at = Val (js ''2026-01-01''), closed_at = Val (js ''2026-01-15''), assignee = Null,
       labels = Val [], comments = 2, pull_request = Undefined\<rparr>,
      \<lparr>number = 3, title = js ''three'', state = js ''closed'',
       created_at = Val (js ''2026-02-02T08:00:00Z''), closed_at = Val (js ''2026-02-10T12:30:00Z''),
       assignee = Val amal, labels = Val [named ''bug'', named ''points:20''], comments = 1,
       pull_request = Undefined\<rparr>,
      \<lparr>number = 4, title = js ''four'', state = js ''open'',
       created_at = Val (js ''2026-02-03T09:00:00Z''), closed_at = Null,
       assignee = Val basil, labels = Val [named ''5 pts''], comments = 0,
       pull_request = Undefined\<rparr>,
      \<lparr>number = 5, title = js ''five'', state = js ''closed'',
       created_at = Val (js ''2026-02-03T10:00:00Z''), closed_at = Val (js ''2026-02-12T18:00:00Z''),
       assignee = Val basil, labels = Val [named ''pts-30''], comments = 4,
       pull_request = Undefined\<rparr>,
      \<lparr>number = 6, title = js ''six'', state = js ''open'',
       created_at = Val (js ''2026-02-04T10:00:00Z''), closed_at = Null,
       assignee = Val amal, labels = Val [], comments = 0,
       pull_request = Undefined\<rparr>]"

definition demo_issues :: "issue list" where
  "demo_issues = processIssues env_utc demo_raw (new_Date env_utc (Val (js ''2026-01-30'')))"

definition demo_project :: project where
  "demo_project =
     \<lparr>owner = js ''hadealahmad'', repo = js ''tracker'', project_name = js ''Tracker'',
      order = Val 1, issues = demo_issues, prs = Undefined, stats = stats_of demo_issues,
      filteredIssues = Undefined, filteredStats = Undefined\<rparr>"

text \<open>The threshold of the examples, as configured.\<close>

definition demo_threshold :: "jstring js_opt" where
  "demo_threshold = Val (js ''2026-01-30'')"



definition late_project :: project where
  "late_project =
     \<lparr>owner = js ''hadealahmad'', repo = js ''late'', project_name = js ''Late'',
      order = Val 2,
      issues = processIssues env_utc
        [\<lparr>number = 21, title = js ''last day'', state = js ''open'',
          created_at = Val (js ''2026-03-30T10:00:00Z''), closed_at = Null, assignee = Null,
          labels = Val [], comments = 0, pull_request = Undefined\<rparr>]
        (new_Date env_utc (Val (js ''2026-01-30''))),
      prs = Val [], stats = stats_of [], filteredIssues = Undefined,
      filteredStats = Undefined\<rparr>"

text \<open>A store holding the two projects.\<close>

definition demo_store :: store where
  "demo_store = [demo_project, late_project]"

section \<open>Properties of the pattern matcher\<close>
























section \<open>Properties of the label points parser\<close>


lemma parseInt10_snoc: "parseInt10 (ds @ [d]) = 10 * parseInt10 ds + (int d - 48)"
  by (simp add: parseInt10_def)


lemma parseInt10_nonneg: "list_all is_digit ds \<Longrightarrow> 0 \<le> parseInt10 ds"
proof (induction ds rule: rev_induct)
  case Nil
  show ?case by (simp add: parseInt10_def)
next
  case (snoc d ds)
  then have "0 \<le> parseInt10 ds" "48 \<le> d" by (simp_all add: is_digit_def)
  then show ?case by (simp add: parseInt10_snoc)
qed

lemma match_digits_Some:
  assumes "match_digits s = Some m"
  shows "\<exists>a b. s = a @ m @ b \<and> list_all (\<lambda>c. \<not> is_digit c) a \<and> m \<noteq> [] \<and>
           list_all is_digit m \<and> (b = [] \<or> \<not> is_digit (hd b))"
proof -
  let ?a = "takeWhile (\<lambda>c. \<not> is_digit c) s"
  let ?r = "dropWhile (\<lambda>c. \<not> is_digit c) s"
  let ?b = "dropWhile is_digit ?r"
  from assms have r: "?r \<noteq> []" and m: "m = takeWhile is_digit ?r"
    by (auto simp: match_digits_def Let_def split: if_splits)
  have "s = ?a @ m @ ?b" unfolding m by simp
  moreover have "list_all (\<lambda>c. \<not> is_digit c) ?a"
    by (simp add: list_all_iff) (metis (mono_tags) set_takeWhileD)
  moreover have "is_digit (hd ?r)" using r hd_dropWhile [of "\<lambda>c. \<not> is_digit c" s] by simp
  then have "m \<noteq> []" using r unfolding m by (cases ?r) auto
  moreover have "list_all is_digit m"
    unfolding m by (simp add: list_all_iff) (metis set_takeWhileD)
  moreover have "?b = [] \<or> \<not> is_digit (hd ?b)"
    using hd_dropWhile [of is_digit ?r] by blast
  ultimately show ?thesis by blast
qed








lemma parsePointsFromLabels_ge0: "0 \<le> parsePointsFromLabels lbls"
proof (cases lbls)
  case (Val xs)
  show ?thesis
  proof (cases "find is_point_label xs")
    case None
    then show ?thesis by (simp add: parsePointsFromLabels_def Val)
  next
    case (Some l)
    show ?thesis
    proof (cases "match_digits (name l)")
      case None
      then show ?thesis by (simp add: parsePointsFromLabels_def Val Some)
    next
      case m: (Some m)
      from match_digits_Some [OF m] have "list_all is_digit m" by blast
      then have "0 \<le> parseInt10 m" by (rule parseInt10_nonneg)
      then show ?thesis by (simp add: parsePointsFromLabels_def Val Some m)
    qed
  qed
qed (simp_all add: parsePointsFromLabels_def)



section \<open>Properties of the normalizer\<close>

text \<open>
  What the normalizer keeps: a closed issue only with \<open>new Date(closed_at) >= thresholdDate\<close>
  (never one whose \<open>closed_at\<close> is \<open>undefined\<close>), and every issue that is not closed. The
  points it attaches are never negative.
\<close>

lemma processIssues_retained:
  "i \<in> set (processIssues env raw T) \<Longrightarrow>
     state i \<noteq> js ''closed'' \<or> date_ge (new_Date env (closed_at i)) T"
  by (auto simp: processIssues_def Let_def split: if_splits)

lemma processIssues_keeps_open:
  assumes "r \<in> set raw" and "state r \<noteq> js ''closed''"
  shows "\<exists>i \<in> set (processIssues env raw T). raw_issue.truncate i = r"
proof -
  let ?i = "raw_issue.extend r
      (issue.fields (truthy_obj (pull_request r)) (parsePointsFromLabels (labels r)))"
  have "state ?i = state r" "raw_issue.truncate ?i = r"
    by (simp_all add: raw_issue.defs issue.defs)
  with assms have "?i \<in> set (processIssues env raw T)"
    by (auto simp: processIssues_def Let_def)
  with \<open>raw_issue.truncate ?i = r\<close> show ?thesis by blast
qed

lemma processIssues_points_nonneg: "i \<in> set (processIssues env raw T) \<Longrightarrow> 0 \<le> points i"
  by (auto simp: processIssues_def Let_def raw_issue.defs issue.defs parsePointsFromLabels_ge0)

lemma processIssues_drops_undefined:
  "i \<in> set (processIssues env raw T) \<Longrightarrow> state i = js ''closed'' \<Longrightarrow>
     closed_at i \<noteq> Undefined"
  by (auto simp: processIssues_def Let_def split: if_splits)

text \<open>
  Claim C3. The normalizer keeps every issue that is not closed. A closed issue is kept when
  \<open>new Date(closed_at) >= thresholdDate\<close>, and \<open>new Date(null)\<close> is the epoch: with a threshold
  at (or before) 1970-01-01 a closed issue whose closing timestamp is absent is kept, where
  the claim excludes it. \<open>calculateGlobalStats\<close> and \<open>buildContributorLeaderboard\<close> test
  \<open>closed_at\<close> for presence first; \<open>processIssues\<close> does not.
\<close>

theorem processIssues_undated_closed:
  "map (\<lambda>i. (number i, state i, closed_at i))
     (processIssues env_utc [undated_closed] (new_Date env_utc (Val (js ''1970-01-01'')))) =
   [(7, js ''closed'', Null)]"
  by code_simp

section \<open>Properties of the global statistics\<close>

lemma reduce_sum_sum_list: "reduce_sum f xs = sum_list (map f xs)"
proof -
  have "foldl (\<lambda>sum i. sum + f i) a xs = a + sum_list (map f xs)" for a
    by (induction xs arbitrary: a) simp_all
  then show ?thesis by (simp add: reduce_sum_def)
qed

lemma sum_list_filter_le:
  "(\<forall>x\<in>set xs. 0 \<le> f x) \<Longrightarrow> sum_list (map f (filter P xs)) \<le> sum_list (map f xs)"
  for f :: "'a \<Rightarrow> int"
  by (induction xs) auto

text \<open>
  Claim C4. When no issue of any project carries negative points, the collected points of
  the global statistics (summed over the issues closed since the threshold) are at most the
  total points (summed over all issues).
\<close>

theorem collected_le_total:
  assumes "\<forall>p\<in>set projects. \<forall>i\<in>set (issues p). 0 \<le> points i"
  shows "g_collectedPoints (calculateGlobalStats env projects thresholdDate) \<le>
         g_totalPoints (calculateGlobalStats env projects thresholdDate)"
proof -
  from assms have "\<forall>i\<in>set (concat (map issues projects)). 0 \<le> points i" by auto
  then show ?thesis
    by (simp add: calculateGlobalStats_def Let_def closedSinceThreshold_def
        reduce_sum_sum_list sum_list_filter_le)
qed

lemma demo_points: "map points demo_issues = [50, 20, 5, 30, 0]" by code_simp
lemma demo_gs: "g_collectedPoints (calculateGlobalStats env_utc [demo_project] (Val (js ''2026-01-30''))) = 50"
  "g_totalPoints (calculateGlobalStats env_utc [demo_project] (Val (js ''2026-01-30''))) = 105"
  by code_simp+

theorem collected_le_total_witness:
  "map points (issues demo_project) = [50, 20, 5, 30, 0] \<and>
   g_collectedPoints (calculateGlobalStats env_utc [demo_project] (Val (js ''2026-01-30''))) = 50 \<and>
   g_totalPoints (calculateGlobalStats env_utc [demo_project] (Val (js ''2026-01-30''))) = 105 \<and>
   g_collectedPoints (calculateGlobalStats env_utc [demo_project] (Val (js ''2026-01-30''))) \<le>
   g_totalPoints (calculateGlobalStats env_utc [demo_project] (Val (js ''2026-01-30'')))"
proof -
  have p: "map points (issues demo_project) = [50, 20, 5, 30, 0]"
    by (simp add: demo_project_def demo_points)
  have "\<forall>i\<in>set (issues demo_project). 0 \<le> points i"
  proof
    fix i assume "i \<in> set (issues demo_project)"
    then have "points i \<in> set (map points (issues demo_project))" by simp
    then show "0 \<le> points i" unfolding p by auto
  qed
  then have "\<forall>p\<in>set [demo_project]. \<forall>i\<in>set (issues p). 0 \<le> points i" by simp
  from collected_le_total [OF this, of env_utc "Val (js ''2026-01-30'')"] p demo_gs
  show ?thesis by simp
qed

section \<open>Properties of the contributor leaderboard\<close>

lemma collect_tagged:
  "collect_contributors env projects T =
     foldl (\<lambda>cs pi. track_issue env T (fst pi) cs (snd pi)) [] (tagged projects)"
proof -
  have inner: "foldl (\<lambda>cs pi. track_issue env T (fst pi) cs (snd pi)) cs (map (Pair p) xs) =
      foldl (track_issue env T p) cs xs" for cs p xs
    by (induction xs arbitrary: cs) simp_all
  have "foldl (\<lambda>cs p. foldl (track_issue env T p) cs (issues p)) cs ps =
      foldl (\<lambda>cs pi. track_issue env T (fst pi) cs (snd pi)) cs (tagged ps)" for cs ps
    by (induction ps arbitrary: cs) (simp_all add: tagged_def inner)
  then show ?thesis by (simp add: collect_contributors_def)
qed

lemma snd_tagged: "map snd (tagged projects) = concat (map issues projects)"
  by (induction projects) (simp_all add: tagged_def comp_def)

lemma username_credit [simp]: "username (credit env T p i c) = username c"
  by (simp add: credit_def Let_def)

lemma assignedCount_credit [simp]: "assignedCount (credit env T p i c) = assignedCount c + 1"
  by (simp add: credit_def Let_def)

lemma truncate_list_issue: "issue.truncate (list_issue p i) = i"
  by (simp add: list_issue_def issue.defs raw_issue.defs listed_issue.defs)

lemma assignedIssues_credit [simp]:
  "assignedIssues (credit env T p i c) = assignedIssues c @ [list_issue p i]"
  by (simp add: credit_def Let_def)

lemma username_map_update [simp]:
  "map username (map_update u (credit env T p i) cs) = map username cs"
  by (induction cs) (simp_all add: map_update_def)

lemma map_has_iff: "map_has cs u \<longleftrightarrow> u \<in> set (map username cs)"
  by (induction cs) (auto simp: map_has_def)

lemma usernames_track:
  "map username (track_issue env T p cs i) =
     (case assignee i of
        Val a \<Rightarrow> if login a \<in> set (map username cs) then map username cs
                 else map username cs @ [login a]
      | _ \<Rightarrow> map username cs)"
  by (simp add: track_issue_def Let_def map_has_iff split: js_opt.splits)

lemma encounter_order_snoc:
  "encounter_order (us @ [u]) = (if u \<in> set us then encounter_order us else encounter_order us @ [u])"
  by (simp add: encounter_order_def)

lemma set_encounter_order [simp]: "set (encounter_order us) = set us"
  by (simp add: encounter_order_def)

lemma distinct_encounter_order [simp]: "distinct (encounter_order us)"
  by (simp add: encounter_order_def)

lemma logins_of_snoc:
  "logins_of (xs @ [i]) = logins_of xs @ (case assignee i of Val a \<Rightarrow> [login a] | _ \<Rightarrow> [])"
  by (simp add: logins_of_def)

lemma map_update_absent: "u \<notin> set (map username cs) \<Longrightarrow> map_update u f cs = cs"
  by (induction cs) (auto simp: map_update_def)

lemma sum_map_update:
  fixes g :: "contributor \<Rightarrow> int"
  assumes "distinct (map username cs)" and "u \<in> set (map username cs)"
    and "\<And>c. g (f c) = g c + 1"
  shows "sum_list (map g (map_update u f cs)) = sum_list (map g cs) + 1"
  using assms(1,2)
proof (induction cs)
  case Nil
  then show ?case by simp
next
  case (Cons c cs)
  show ?case
  proof (cases "username c = u")
    case True
    with Cons.prems have "u \<notin> set (map username cs)" by auto
    then have "map_update u f cs = cs" by (rule map_update_absent)
    with True show ?thesis by (simp add: map_update_def assms(3))
  next
    case False
    with Cons show ?thesis by (simp add: map_update_def)
  qed
qed

lemma sum_track:
  assumes "distinct (map username cs)"
  shows "sum_list (map assignedCount (track_issue env T p cs i)) =
         sum_list (map assignedCount cs) + (if truthy_obj (assignee i) then 1 else 0)"
proof (cases "assignee i")
  case (Val a)
  let ?new = "\<lparr>username = login a, contrib_avatar_url = avatar_url a,
      contrib_html_url = html_url a, assignedIssues = [], closedIssuesWithPoints = [],
      totalPoints = 0, closedCount = 0, assignedCount = 0\<rparr>"
  let ?cs1 = "if \<not> map_has cs (login a) then cs @ [?new] else cs"
  have d: "distinct (map username ?cs1)"
    using assms by (simp add: map_has_iff)
  have m: "login a \<in> set (map username ?cs1)"
    by (simp add: map_has_iff)
  have s: "sum_list (map assignedCount ?cs1) = sum_list (map assignedCount cs)" by simp
  have "track_issue env T p cs i = map_update (login a) (credit env T p i) ?cs1"
    by (simp add: track_issue_def Val Let_def)
  then show ?thesis
    using sum_map_update [OF d m, of assignedCount "credit env T p i"] s Val
    by (simp del: map_append)
qed (simp_all add: track_issue_def)

lemma track_entry:
  assumes "c' \<in> set (track_issue env T p cs i)"
  shows "(c' \<in> set cs \<and> \<not> assigned_to (username c') i) \<or>
         (\<exists>c. c \<in> set cs \<and> assigned_to (username c) i \<and> c' = credit env T p i c) \<or>
         (\<exists>a. assignee i = Val a \<and> login a \<notin> set (map username cs) \<and>
              c' = credit env T p i (fresh_contributor a))"
proof (cases "assignee i")
  case (Val a)
  let ?cs1 = "if \<not> map_has cs (login a) then cs @ [fresh_contributor a] else cs"
  have "track_issue env T p cs i = map_update (login a) (credit env T p i) ?cs1"
    by (simp add: track_issue_def Val Let_def fresh_contributor_def)
  with assms have "c' \<in> set (map_update (login a) (credit env T p i) ?cs1)"
    by (simp only:)
  then obtain c where c: "c \<in> set ?cs1"
    and c': "c' = (if username c = login a then credit env T p i c else c)"
    by (auto simp: map_update_def)
  show ?thesis
  proof (cases "c \<in> set cs")
    case True
    with c' Val show ?thesis by (auto simp: assigned_to_def)
  next
    case False
    with c have "c = fresh_contributor a" and "login a \<notin> set (map username cs)"
      by (auto simp: map_has_iff split: if_splits)
    with c' Val show ?thesis by (simp add: fresh_contributor_def)
  qed
next
  case Undefined
  with assms show ?thesis by (simp add: track_issue_def assigned_to_def)
next
  case Null
  with assms show ?thesis by (simp add: track_issue_def assigned_to_def)
qed

lemma no_login_no_issue:
  "u \<notin> set (logins_of xs) \<Longrightarrow> filter (assigned_to u) xs = []"
  by (induction xs) (auto simp: logins_of_def assigned_to_def split: js_opt.splits)

lemma truthy_obj_Val: "truthy_obj v \<longleftrightarrow> (\<exists>a. v = Val a)"
  by (cases v) simp_all

lemma collect_inv:
  fixes env T
  defines "run \<equiv> foldl (\<lambda>cs pi. track_issue env T (fst pi) cs (snd pi)) []"
  shows "map username (run xs) = encounter_order (logins_of (map snd xs)) \<and>
     sum_list (map assignedCount (run xs)) =
       int (length (filter (\<lambda>i. truthy_obj (assignee i)) (map snd xs))) \<and>
     (\<forall>c\<in>set (run xs).
        assignedCount c = int (length (filter (assigned_to (username c)) (map snd xs))) \<and>
        map issue.truncate (assignedIssues c) = filter (assigned_to (username c)) (map snd xs))"
proof (induction xs rule: rev_induct)
  case Nil
  show ?case by (simp add: run_def logins_of_def encounter_order_def)
next
  case (snoc x xs)
  obtain p i where x: "x = (p, i)" by (cases x)
  let ?cs = "run xs" and ?seen = "map snd xs"
  have r: "run (xs @ [(p, i)]) = track_issue env T p ?cs i" by (simp add: run_def)
  from snoc have names: "map username ?cs = encounter_order (logins_of ?seen)"
    and total: "sum_list (map assignedCount ?cs) =
       int (length (filter (\<lambda>i. truthy_obj (assignee i)) ?seen))"
    and each: "\<And>c. c \<in> set ?cs \<Longrightarrow>
        assignedCount c = int (length (filter (assigned_to (username c)) ?seen)) \<and>
        map issue.truncate (assignedIssues c) = filter (assigned_to (username c)) ?seen"
    by blast+
  have d: "distinct (map username ?cs)" by (simp add: names)
  have 1: "map username (run (xs @ [x])) = encounter_order (logins_of (map snd (xs @ [x])))"
    by (cases "assignee i")
       (simp_all add: r usernames_track names logins_of_snoc encounter_order_snoc x)
  have 2: "sum_list (map assignedCount (run (xs @ [x]))) =
       int (length (filter (\<lambda>i. truthy_obj (assignee i)) (map snd (xs @ [x]))))"
    by (simp add: r sum_track [OF d] total x)
  have 3: "assignedCount c' = int (length (filter (assigned_to (username c')) (map snd (xs @ [x])))) \<and>
        map issue.truncate (assignedIssues c') = filter (assigned_to (username c')) (map snd (xs @ [x]))"
    if "c' \<in> set (run (xs @ [x]))" for c'
  proof -
    from that have "c' \<in> set (track_issue env T p ?cs i)" by (simp only: r x)
    from track_entry [OF this] consider
        (same) "c' \<in> set ?cs" "\<not> assigned_to (username c') i"
      | (credited) c where "c \<in> set ?cs" "assigned_to (username c) i" "c' = credit env T p i c"
      | (fresh) a where "assignee i = Val a" "login a \<notin> set (map username ?cs)"
          "c' = credit env T p i (fresh_contributor a)"
      by blast
    then show ?thesis
    proof cases
      case same
      with each [of c'] show ?thesis by (simp add: x)
    next
      case credited
      with each [of c] show ?thesis by (simp add: x truncate_list_issue)
    next
      case fresh
      from fresh(2) have "login a \<notin> set (logins_of ?seen)" by (simp add: names)
      then have "filter (assigned_to (login a)) ?seen = []" by (rule no_login_no_issue)
      with fresh(1,3) show ?thesis
        by (simp add: x fresh_contributor_def truncate_list_issue assigned_to_def)
    qed
  qed
  from 1 2 3 show ?case by blast
qed

lemma mset_place: "mset (place cmp x xs) = add_mset x (mset xs)"
  by (induction xs) simp_all

lemma mset_array_sort: "mset (array_sort cmp xs) = mset xs"
  by (induction xs) (simp_all add: array_sort_def mset_place)

lemma set_place: "set (place cmp x xs) = insert x (set xs)"
  by (induction xs) auto

lemma sorted_place:
  fixes key :: "'a \<Rightarrow> int"
  assumes "sorted_wrt (\<lambda>a b. key b \<le> key a) xs"
  shows "sorted_wrt (\<lambda>a b. key b \<le> key a) (place (\<lambda>a b. key b - key a) x xs)"
  using assms
proof (induction xs)
  case Nil
  show ?case by simp
next
  case (Cons y ys)
  show ?case
  proof (cases "key y \<le> key x")
    case True
    with Cons.prems show ?thesis by force
  next
    case False
    with Cons show ?thesis by (auto simp: set_place)
  qed
qed

lemma sorted_array_sort:
  fixes key :: "'a \<Rightarrow> int"
  shows "sorted_wrt (\<lambda>a b. key b \<le> key a) (array_sort (\<lambda>a b. key b - key a) xs)"
  by (induction xs) (simp_all add: array_sort_def sorted_place)

lemma filter_place:
  fixes key :: "'a \<Rightarrow> int"
  shows "filter (\<lambda>c. key c = k) (place (\<lambda>a b. key b - key a) x xs) =
         (if key x = k then x # filter (\<lambda>c. key c = k) xs else filter (\<lambda>c. key c = k) xs)"
  by (induction xs) auto

lemma stable_array_sort:
  fixes key :: "'a \<Rightarrow> int"
  shows "filter (\<lambda>c. key c = k) (array_sort (\<lambda>a b. key b - key a) xs) =
         filter (\<lambda>c. key c = k) xs"
  by (induction xs) (simp_all add: array_sort_def filter_place)

lemma leaderboard_sorted:
  assumes "sortBy \<in> {js ''points'', js ''closed'', js ''assigned''}"
  shows "buildContributorLeaderboard env projects T sortBy =
     array_sort (\<lambda>a b. selected_key sortBy b - selected_key sortBy a)
       (collect_contributors env projects T)"
proof -
  have ne: "js ''closed'' \<noteq> js ''points''" "js ''assigned'' \<noteq> js ''points''"
    "js ''assigned'' \<noteq> js ''closed''"
    by (simp_all add: js_def)
  from assms consider "sortBy = js ''points''" | "sortBy = js ''closed''"
    | "sortBy = js ''assigned''" by blast
  then show ?thesis
    by cases (simp_all add: buildContributorLeaderboard_def selected_key_def ne)
qed

lemma mset_leaderboard:
  "mset (buildContributorLeaderboard env projects T sortBy) =
   mset (collect_contributors env projects T)"
  by (simp add: buildContributorLeaderboard_def Let_def mset_array_sort)

lemma collect_usernames:
  "map username (collect_contributors env projects T) =
     encounter_order (assignee_logins projects)"
  using collect_inv [of env T "tagged projects"]
  by (simp add: collect_tagged snd_tagged logins_of_def assignee_logins_def)

lemma set_logins_of: "u \<in> set (logins_of xs) \<longleftrightarrow> (\<exists>i\<in>set xs. assigned_to u i)"
  by (induction xs) (auto simp: logins_of_def assigned_to_def split: js_opt.splits)


text \<open>
  Claim C5. Whatever the sort key, the \<open>assignedCount\<close> of the leaderboard entries add up to
  the number of issues of all projects that have an assignee. The entries have distinct
  usernames, and the entry of a username counts, and lists in order, exactly the issues
  assigned to that username: every assigned issue is in one bucket, the one of its assignee.
\<close>

theorem assignedCount_sum:
  fixes env projects T sortBy
  defines "lb \<equiv> buildContributorLeaderboard env projects T sortBy"
    and "allIssues \<equiv> concat (map issues projects)"
  shows "sum_list (map assignedCount lb) =
           int (length (filter (\<lambda>i. truthy_obj (assignee i)) allIssues)) \<and>
         distinct (map username lb) \<and>
         (\<forall>c\<in>set lb.
            assignedCount c = int (length (filter (assigned_to (username c)) allIssues)) \<and>
            map issue.truncate (assignedIssues c) = filter (assigned_to (username c)) allIssues)"
proof -
  let ?base = "collect_contributors env projects T"
  have m: "mset lb = mset ?base" by (simp add: lb_def mset_leaderboard)
  note inv = collect_inv [of env T "tagged projects", folded collect_tagged, unfolded snd_tagged]
  have "sum_list (map assignedCount lb) = sum_mset (image_mset assignedCount (mset lb))"
    by (metis mset_map sum_mset_sum_list)
  also have "\<dots> = sum_list (map assignedCount ?base)"
    unfolding m by (metis mset_map sum_mset_sum_list)
  finally have 1: "sum_list (map assignedCount lb) =
      int (length (filter (\<lambda>i. truthy_obj (assignee i)) allIssues))"
    using inv by (simp add: allIssues_def)
  have "mset (map username lb) = mset (map username ?base)" using m by (metis mset_map)
  moreover have "distinct (map username ?base)" by (simp add: collect_usernames)
  ultimately have 2: "distinct (map username lb)" by (metis mset_eq_imp_distinct_iff)
  have "set lb = set ?base" using m by (rule mset_eq_setD)
  with inv have 3: "\<forall>c\<in>set lb.
            assignedCount c = int (length (filter (assigned_to (username c)) allIssues)) \<and>
            map issue.truncate (assignedIssues c) = filter (assigned_to (username c)) allIssues"
    by (simp add: allIssues_def)
  from 1 2 3 show ?thesis by blast
qed

theorem assignedCount_sum_witness:
  "hd (buildContributorLeaderboard env_utc [demo_project] demo_threshold (js ''points'')) \<in>
     set (buildContributorLeaderboard env_utc [demo_project] demo_threshold (js ''points'')) \<and>
   sum_list (map assignedCount
     (buildContributorLeaderboard env_utc [demo_project] demo_threshold (js ''points''))) = 4 \<and>
   int (length (filter (\<lambda>i. truthy_obj (assignee i)) (concat (map issues [demo_project])))) = 4 \<and>
   assignedCount (hd (buildContributorLeaderboard env_utc [demo_project] demo_threshold (js ''points''))) =
     int (length (filter (assigned_to (username
       (hd (buildContributorLeaderboard env_utc [demo_project] demo_threshold (js ''points'')))))
       (concat (map issues [demo_project]))))"
proof -
  let ?lb = "buildContributorLeaderboard env_utc [demo_project] demo_threshold (js ''points'')"
  have "map username ?lb = [js ''basil'', js ''amal'']" by code_simp
  then have "?lb \<noteq> []" by auto
  then have h: "hd ?lb \<in> set ?lb" by simp
  have n: "int (length (filter (\<lambda>i. truthy_obj (assignee i)) (concat (map issues [demo_project])))) = 4"
    by code_simp
  from assignedCount_sum [of env_utc "[demo_project]" demo_threshold "js ''points''"] h n
  show ?thesis by simp
qed

text \<open>
  Claim C6. A username has an entry in the leaderboard if and only if some issue of some
  project is assigned to it; so every entry has an \<open>assignedCount\<close> of at least 1.
\<close>

theorem contributor_iff_assigned:
  fixes env projects T sortBy
  defines "lb \<equiv> buildContributorLeaderboard env projects T sortBy"
    and "allIssues \<equiv> concat (map issues projects)"
  shows "(u \<in> set (map username lb) \<longleftrightarrow> (\<exists>i\<in>set allIssues. assigned_to u i)) \<and>
         (\<forall>c\<in>set lb. 1 \<le> assignedCount c)"
proof -
  let ?base = "collect_contributors env projects T"
  have m: "mset lb = mset ?base" by (simp add: lb_def mset_leaderboard)
  then have s: "set lb = set ?base" by (rule mset_eq_setD)
  note inv = collect_inv [of env T "tagged projects", folded collect_tagged, unfolded snd_tagged]
  from inv have "set (map username ?base) = set (encounter_order (logins_of allIssues))"
    by (simp only: allIssues_def)
  then have names: "set (map username lb) = set (logins_of allIssues)"
    using s by simp
  then have 1: "u \<in> set (map username lb) \<longleftrightarrow> (\<exists>i\<in>set allIssues. assigned_to u i)"
    by (simp only: set_logins_of)
  have 2: "1 \<le> assignedCount c" if c: "c \<in> set lb" for c
  proof -
    from c have "username c \<in> set (map username lb)" by simp
    then obtain i where "i \<in> set allIssues" "assigned_to (username c) i"
      unfolding names set_logins_of by blast
    then have "filter (assigned_to (username c)) allIssues \<noteq> []"
      by (auto simp: filter_empty_conv)
    then have "1 \<le> length (filter (assigned_to (username c)) allIssues)"
      by (cases "filter (assigned_to (username c)) allIssues") simp_all
    moreover from c s inv
    have "assignedCount c = int (length (filter (assigned_to (username c)) allIssues))"
      by (simp add: allIssues_def)
    ultimately show ?thesis by simp
  qed
  from 1 2 show ?thesis by blast
qed

theorem contributor_iff_assigned_witness:
  "js ''amal'' \<in> set (map username
      (buildContributorLeaderboard env_utc [demo_project] demo_threshold (js ''closed''))) \<and>
   (\<exists>i\<in>set (concat (map issues [demo_project])). assigned_to (js ''amal'') i) \<and>
   1 \<le> assignedCount
      (hd (buildContributorLeaderboard env_utc [demo_project] demo_threshold (js ''closed''))) \<and>
   js ''nobody'' \<notin> set (map username
      (buildContributorLeaderboard env_utc [demo_project] demo_threshold (js ''closed'')))"
proof -
  let ?lb = "buildContributorLeaderboard env_utc [demo_project] demo_threshold (js ''closed'')"
  have u: "map username ?lb = [js ''amal'', js ''basil'']" by code_simp
  then have "?lb \<noteq> []" by auto
  then have h: "hd ?lb \<in> set ?lb" by simp
  have a: "js ''amal'' \<in> set (map username ?lb)" unfolding u by simp
  have n: "js ''nobody'' \<notin> set (map username ?lb)" unfolding u by (simp add: js_def)
  from contributor_iff_assigned [of "js ''amal''" env_utc "[demo_project]" demo_threshold "js ''closed''"]
    a h n
  show ?thesis by blast
qed

text \<open>
  Claim C7. For each of the three sort keys the leaderboard is in descending order of the
  key, it is a permutation of the contributors as collected, the contributors with one
  key value stand in the order in which they were collected, and that order is the order of
  first encounter of the assignee logins.
\<close>

theorem leaderboard_stable_sorted:
  fixes env projects T sortBy
  defines "base \<equiv> collect_contributors env projects T"
    and "lb \<equiv> buildContributorLeaderboard env projects T sortBy"
    and "key \<equiv> selected_key sortBy"
  assumes "sortBy \<in> {js ''points'', js ''closed'', js ''assigned''}"
  shows "sorted_wrt (\<lambda>a b. key b \<le> key a) lb \<and>
         mset lb = mset base \<and>
         (\<forall>k. filter (\<lambda>c. key c = k) lb = filter (\<lambda>c. key c = k) base) \<and>
         map username base = encounter_order (assignee_logins projects)"
proof -
  have lb: "lb = array_sort (\<lambda>a b. key b - key a) base"
    unfolding lb_def base_def key_def using assms(4) by (rule leaderboard_sorted)
  show ?thesis
    unfolding lb
    by (simp add: sorted_array_sort mset_array_sort stable_array_sort)
       (simp add: base_def collect_usernames)
qed

theorem leaderboard_stable_sorted_witness:
  "js ''assigned'' \<in> {js ''points'', js ''closed'', js ''assigned''} \<and>
   map username (collect_contributors env_utc [demo_project] demo_threshold) =
     [js ''amal'', js ''basil''] \<and>
   map assignedCount (buildContributorLeaderboard env_utc [demo_project] demo_threshold (js ''assigned'')) =
     [2, 2] \<and>
   map username (buildContributorLeaderboard env_utc [demo_project] demo_threshold (js ''assigned'')) =
     [js ''amal'', js ''basil''] \<and>
   map username (buildContributorLeaderboard env_utc [demo_project] demo_threshold (js ''points'')) =
     [js ''basil'', js ''amal''] \<and>
   sorted_wrt (\<lambda>a b. selected_key (js ''assigned'') b \<le> selected_key (js ''assigned'') a)
     (buildContributorLeaderboard env_utc [demo_project] demo_threshold (js ''assigned'')) \<and>
   filter (\<lambda>c. selected_key (js ''assigned'') c = 2)
     (buildContributorLeaderboard env_utc [demo_project] demo_threshold (js ''assigned'')) =
   filter (\<lambda>c. selected_key (js ''assigned'') c = 2)
     (collect_contributors env_utc [demo_project] demo_threshold)"
proof -
  have m: "js ''assigned'' \<in> {js ''points'', js ''closed'', js ''assigned''}" by simp
  have 1: "map username (collect_contributors env_utc [demo_project] demo_threshold) =
     [js ''amal'', js ''basil'']" by code_simp
  have 2: "map assignedCount (buildContributorLeaderboard env_utc [demo_project] demo_threshold (js ''assigned'')) =
     [2, 2]" by code_simp
  have 3: "map username (buildContributorLeaderboard env_utc [demo_project] demo_threshold (js ''assigned'')) =
     [js ''amal'', js ''basil'']" by code_simp
  have 4: "map username (buildContributorLeaderboard env_utc [demo_project] demo_threshold (js ''points'')) =
     [js ''basil'', js ''amal'']" by code_simp
  from leaderboard_stable_sorted [OF m, of env_utc "[demo_project]" demo_threshold] m 1 2 3 4
  show ?thesis by blast
qed

section \<open>Properties of the daily counts\<close>


lemma add_count_0 [simp]: "add_count series k 0 = series k"
  by (simp add: add_count_def split: option.splits)

lemma add_count_add:
  "m' k = add_count m k a \<Longrightarrow> add_count m' k b = add_count m k (a + b)"
  by (simp add: add_count_def split: option.splits)











lemma toISODate_ok: "d \<noteq> None \<Longrightarrow> \<exists>k. toISODate d = Inr k"
  by (cases d) (simp_all add: toISODate_def)

lemma count_issue_returns:
  assumes "issue_dates_ok env i"
  shows "\<exists>data'. count_issue env data i = Inr data'"
proof -
  from assms have 1: "truthy_str (created_at i) \<Longrightarrow> \<exists>k. toISODate (new_Date env (created_at i)) = Inr k"
    and 2: "state i = js ''closed'' \<Longrightarrow> truthy_str (closed_at i) \<Longrightarrow>
       \<exists>k. toISODate (new_Date env (closed_at i)) = Inr k"
    by (auto simp: issue_dates_ok_def intro: toISODate_ok split: if_splits)
  show ?thesis
    unfolding count_issue_def using 1 2 by (auto split: sum.splits)
qed

lemma count_pr_returns:
  assumes "pr_dates_ok env pr"
  shows "\<exists>data'. count_pr env data pr = Inr data'"
proof -
  from assms have 1: "\<exists>k. toISODate (new_Date env (pr_created_at pr)) = Inr k"
    and 2: "pr_state pr = js ''closed'' \<Longrightarrow> truthy_str (pr_closed_at pr) \<Longrightarrow>
       \<exists>k. toISODate (new_Date env (pr_closed_at pr)) = Inr k"
    by (auto simp: pr_dates_ok_def intro: toISODate_ok split: if_splits)
  show ?thesis
    unfolding count_pr_def using 1 2 by (auto split: sum.splits)
qed

lemma forEach_returns:
  assumes "\<And>s x. x \<in> set xs \<Longrightarrow> \<exists>s'. f s x = Inr s'"
  shows "\<exists>s'. forEach f s xs = Inr s'"
  using assms
proof (induction xs arbitrary: s)
  case Nil
  show ?case by simp
next
  case (Cons x xs)
  from Cons.prems [of x s] obtain s1 where "f s x = Inr s1" by auto
  moreover from Cons.IH [of s1] Cons.prems obtain s' where "forEach f s1 xs = Inr s'"
    by auto
  ultimately show ?case by simp
qed

lemma count_project_returns:
  assumes "list_all (issue_dates_ok env) (issues p)" "list_all (pr_dates_ok env) (all_prs [p])"
  shows "\<exists>data'. count_project env data p = Inr data'"
proof -
  from assms(1) obtain d1 where 1: "forEach (count_issue env) data (issues p) = Inr d1"
    using forEach_returns [of "issues p" "count_issue env" data] count_issue_returns
    by (auto simp: list_all_iff)
  show ?thesis
  proof (cases "prs p")
    case (Val ps)
    with assms(2) have "list_all (pr_dates_ok env) ps" by (simp add: all_prs_def)
    then obtain d2 where "forEach (count_pr env) d1 ps = Inr d2"
      using forEach_returns [of ps "count_pr env" d1] count_pr_returns
      by (auto simp: list_all_iff)
    with 1 Val show ?thesis by (simp add: count_project_def)
  qed (simp_all add: count_project_def 1)
qed

lemma forEach_project_returns:
  assumes "dates_ok env ps"
  shows "\<exists>data'. forEach (count_project env) data ps = Inr data'"
  using assms forEach_returns [of ps "count_project env" data] count_project_returns
  by (auto simp: dates_ok_def list_all_iff)


lemma clock_advances_berlin: "clock_advances env_berlin"
  by (simp add: clock_advances_def env_berlin_def msPerDay_def)



subsection \<open>The key set on a host with a constant offset\<close>

text \<open>
  Where the offset of the local time zone never changes, a step of the initialisation loop
  is exactly one day. The call then returns (the timestamps being valid), and the four
  series have the same keys: the days from the start to the end. For a start and an end at
  midnight UTC these are all calendar days of the range.
\<close>

lemma days_between_step:
  "days_between t0 t1 =
     (if t0 \<le> t1 then insert (iso_date t0) (days_between (t0 + msPerDay) t1) else {})"
proof (cases "t0 \<le> t1")
  case False
  have "\<not> (0 \<le> k \<and> t0 + k * msPerDay \<le> t1)" for k
  proof
    assume "0 \<le> k \<and> t0 + k * msPerDay \<le> t1"
    then have "0 \<le> k * msPerDay" "t0 + k * msPerDay \<le> t1" by (simp_all add: msPerDay_def)
    with False show False by linarith
  qed
  with False show ?thesis by (simp add: days_between_def)
next
  case True
  have "days_between t0 t1 = insert (iso_date t0) (days_between (t0 + msPerDay) t1)"
  proof (intro set_eqI iffI)
    fix x assume "x \<in> days_between t0 t1"
    then obtain k where k: "x = iso_date (t0 + k * msPerDay)" "0 \<le> k" "t0 + k * msPerDay \<le> t1"
      by (auto simp: days_between_def)
    show "x \<in> insert (iso_date t0) (days_between (t0 + msPerDay) t1)"
    proof (cases "k = 0")
      case True
      with k show ?thesis by simp
    next
      case False
      with k have "0 \<le> k - 1" "t0 + msPerDay + (k - 1) * msPerDay = t0 + k * msPerDay"
        by (simp_all add: algebra_simps)
      with k have "x \<in> days_between (t0 + msPerDay) t1"
        unfolding days_between_def by (metis (mono_tags, lifting) mem_Collect_eq)
      then show ?thesis by simp
    qed
  next
    fix x assume "x \<in> insert (iso_date t0) (days_between (t0 + msPerDay) t1)"
    then consider "x = iso_date t0"
      | k where "x = iso_date (t0 + msPerDay + k * msPerDay)" "0 \<le> k"
          "t0 + msPerDay + k * msPerDay \<le> t1"
      by (auto simp: days_between_def)
    then show "x \<in> days_between t0 t1"
    proof cases
      case 1
      with True have "x = iso_date (t0 + 0 * msPerDay) \<and> (0::int) \<le> 0 \<and> t0 + 0 * msPerDay \<le> t1"
        by simp
      then show ?thesis unfolding days_between_def by blast
    next
      case (2 k)
      then have "x = iso_date (t0 + (k + 1) * msPerDay) \<and> 0 \<le> k + 1 \<and>
          t0 + (k + 1) * msPerDay \<le> t1"
        by (simp add: algebra_simps)
      then show ?thesis unfolding days_between_def by blast
    qed
  qed
  with True show ?thesis by simp
qed

lemma days_between_aligned:
  "days_between (d0 * msPerDay) (d1 * msPerDay) = (\<lambda>d. iso_date (d * msPerDay)) ` {d0..d1}"
proof (intro set_eqI iffI)
  fix x assume "x \<in> days_between (d0 * msPerDay) (d1 * msPerDay)"
  then obtain k where k: "x = iso_date (d0 * msPerDay + k * msPerDay)" "0 \<le> k"
      "d0 * msPerDay + k * msPerDay \<le> d1 * msPerDay"
    by (auto simp: days_between_def)
  from k(3) have "(d0 + k) * msPerDay \<le> d1 * msPerDay" by (simp add: algebra_simps)
  then have "d0 + k \<le> d1" by (simp add: msPerDay_def)
  with k(1,2) have "x = iso_date ((d0 + k) * msPerDay)" "d0 + k \<in> {d0..d1}"
    by (simp_all add: algebra_simps)
  then show "x \<in> (\<lambda>d. iso_date (d * msPerDay)) ` {d0..d1}" by blast
next
  fix x assume "x \<in> (\<lambda>d. iso_date (d * msPerDay)) ` {d0..d1}"
  then obtain d where d: "x = iso_date (d * msPerDay)" "d0 \<le> d" "d \<le> d1" by auto
  then have "x = iso_date (d0 * msPerDay + (d - d0) * msPerDay) \<and> 0 \<le> d - d0 \<and>
      d0 * msPerDay + (d - d0) * msPerDay \<le> d1 * msPerDay"
    by (simp add: algebra_simps msPerDay_def)
  then show "x \<in> days_between (d0 * msPerDay) (d1 * msPerDay)"
    unfolding days_between_def by blast
qed

lemma init_days_keys:
  assumes off: "\<And>t. tza_utc env t = off" "\<And>t. tza_local env t = off"
    and t1: "\<bar>t1\<bar> \<le> 8640000000000000"
  shows "- 8640000000000000 \<le> t0 \<Longrightarrow>
     \<exists>data'. init_days env (Some t0) (Some t1) data = Some (Inr data') \<and>
       dom (assigned data') = dom (assigned data) \<union> days_between t0 t1 \<and>
       dom (closed data') = dom (closed data) \<union> days_between t0 t1 \<and>
       dom (merged_prs data') = dom (merged_prs data) \<union> days_between t0 t1 \<and>
       dom (open_prs data') = dom (open_prs data) \<union> days_between t0 t1"
proof (induction "nat (t1 - t0 + 1)" arbitrary: t0 data rule: less_induct)
  case less
  show ?case
  proof (cases "t0 \<le> t1")
    case False
    then have "init_days env (Some t0) (Some t1) data = Some (Inr data)"
      by (subst init_days.simps) simp
    moreover from False have "days_between t0 t1 = {}" by (subst days_between_step) simp
    ultimately show ?thesis by simp
  next
    case True
    let ?d = "data\<lparr>assigned := (assigned data)(iso_date t0 \<mapsto> 0),
                   closed := (closed data)(iso_date t0 \<mapsto> 0),
                   merged_prs := (merged_prs data)(iso_date t0 \<mapsto> 0),
                   open_prs := (open_prs data)(iso_date t0 \<mapsto> 0)\<rparr>"
    have step: "init_days env (Some t0) (Some t1) data =
        init_days env (setDate_next env (Some t0)) (Some t1) ?d"
      using True by (subst init_days.simps) (simp add: toISODate_def)
    have nxt: "setDate_next env (Some t0) = TimeClip (t0 + msPerDay)"
      by (simp add: setDate_next_def off)
    from True have db: "days_between t0 t1 = insert (iso_date t0) (days_between (t0 + msPerDay) t1)"
      by (subst days_between_step) simp
    show ?thesis
    proof (cases "\<bar>t0 + msPerDay\<bar> > 8640000000000000")
      case over: True
      then have "init_days env (Some t0) (Some t1) data = Some (Inr ?d)"
        unfolding step nxt by (subst init_days.simps) (simp add: TimeClip_def)
      moreover from over less.prems t1 have "\<not> t0 + msPerDay \<le> t1"
        by (simp add: msPerDay_def)
      then have "days_between (t0 + msPerDay) t1 = {}" by (subst days_between_step) simp
      ultimately show ?thesis by (simp add: db)
    next
      case False
      then have c: "TimeClip (t0 + msPerDay) = Some (t0 + msPerDay)" by (simp add: TimeClip_def)
      from True have "nat (t1 - (t0 + msPerDay) + 1) < nat (t1 - t0 + 1)"
        by (simp add: msPerDay_def)
      moreover from less.prems have "- 8640000000000000 \<le> t0 + msPerDay"
        by (simp add: msPerDay_def)
      ultimately obtain data' where
        "init_days env (Some (t0 + msPerDay)) (Some t1) ?d = Some (Inr data')"
        "dom (assigned data') = dom (assigned ?d) \<union> days_between (t0 + msPerDay) t1"
        "dom (closed data') = dom (closed ?d) \<union> days_between (t0 + msPerDay) t1"
        "dom (merged_prs data') = dom (merged_prs ?d) \<union> days_between (t0 + msPerDay) t1"
        "dom (open_prs data') = dom (open_prs ?d) \<union> days_between (t0 + msPerDay) t1"
        using less.hyps [of "t0 + msPerDay" ?d] by blast
      then show ?thesis unfolding step nxt c db by auto
    qed
  qed
qed

lemma dom_bump [simp]: "dom (bump series k) = dom series"
  by (auto simp: bump_def split: option.splits)

lemma bump_Some_D: "bump series k x = Some y \<Longrightarrow> \<exists>y'. series x = Some y'"
  by (auto simp: bump_def split: option.splits if_splits)

lemma bump_Some_I: "series x = Some y \<Longrightarrow> \<exists>y'. bump series k x = Some y'"
  by (auto simp: bump_def split: option.splits)

lemma count_issue_keys: "count_issue env data i = Inr data' \<Longrightarrow> keys_of data' = keys_of data"
  by (auto simp: count_issue_def keys_of_def split: if_splits sum.splits
        dest: bump_Some_D intro: bump_Some_I)

lemma count_pr_keys: "count_pr env data pr = Inr data' \<Longrightarrow> keys_of data' = keys_of data"
  by (auto simp: count_pr_def keys_of_def split: if_splits sum.splits
        dest: bump_Some_D intro: bump_Some_I)

lemma forEach_keys:
  assumes "\<And>s x s'. f s x = Inr s' \<Longrightarrow> keys_of s' = keys_of s"
  shows "forEach f s xs = Inr s' \<Longrightarrow> keys_of s' = keys_of s"
proof (induction xs arbitrary: s)
  case Nil
  then show ?case by simp
next
  case (Cons x xs)
  then obtain s1 where "f s x = Inr s1" "forEach f s1 xs = Inr s'"
    by (auto split: sum.splits)
  with Cons.IH [of s1] assms [of s x s1] show ?case by simp
qed

lemma count_project_keys:
  assumes "count_project env data p = Inr data'"
  shows "keys_of data' = keys_of data"
proof -
  from assms obtain d1 where 1: "forEach (count_issue env) data (issues p) = Inr d1"
    and 2: "(case prs p of Val ps \<Rightarrow> forEach (count_pr env) d1 ps | _ \<Rightarrow> Inr d1) = Inr data'"
    by (auto simp: count_project_def split: sum.splits)
  from 1 have k: "keys_of d1 = keys_of data"
    by (rule forEach_keys [rotated]) (rule count_issue_keys)
  show ?thesis
  proof (cases "prs p")
    case (Val ps)
    with 2 have "forEach (count_pr env) d1 ps = Inr data'" by simp
    then have "keys_of data' = keys_of d1"
      by (rule forEach_keys [rotated]) (rule count_pr_keys)
    with k show ?thesis by simp
  qed (use 2 k in simp_all)
qed

lemma new_Date_clipped: "new_Date env v = Some t \<Longrightarrow> \<bar>t\<bar> \<le> 8640000000000000"
  by (cases v) (auto simp: TimeClip_def split: option.splits if_splits)

lemma dailyCounts_keys_constant_offset:
  assumes off: "\<And>t. tza_utc env t = off" "\<And>t. tza_local env t = off"
    and s: "new_Date env (Val startDateStr) = Some t0"
    and e: "new_Date env (Val endDateStr) = Some t1"
    and ok: "dates_ok env projects"
  shows "\<exists>data. calculateDailyCounts env projects startDateStr endDateStr = Some (Inr data) \<and>
           same_keys data (days_between t0 t1)"
proof -
  let ?d0 = "\<lparr>assigned = Map.empty, closed = Map.empty, merged_prs = Map.empty,
              open_prs = Map.empty\<rparr>"
  from new_Date_clipped [OF s] have "- 8640000000000000 \<le> t0" by simp
  from init_days_keys [OF off new_Date_clipped [OF e] this, of ?d0]
  obtain d1 where i: "init_days env (Some t0) (Some t1) ?d0 = Some (Inr d1)"
    and k: "keys_of d1 = (days_between t0 t1, days_between t0 t1, days_between t0 t1,
        days_between t0 t1)"
    by (auto simp: keys_of_def)
  from ok forEach_project_returns obtain d2 where f: "forEach (count_project env) d1 projects = Inr d2"
    by blast
  then have "keys_of d2 = keys_of d1"
    by (rule forEach_keys [rotated]) (rule count_project_keys)
  with k have "same_keys d2 (days_between t0 t1)" by (simp add: keys_of_def same_keys_def)
  moreover from i f have "calculateDailyCounts env projects startDateStr endDateStr = Some (Inr d2)"
    by (simp add: calculateDailyCounts_def s e del: new_Date.simps)
  ultimately show ?thesis by blast
qed


text \<open>
  Claim C8. The loop that initialises the days advances the date in local time
  (\<open>getDate\<close>, \<open>setDate\<close>) and names the day in UTC (\<open>toISOString\<close>). For the range that the
  application requests, 2026-01-30 to 2026-03-30, a host on Central European Time passes the
  start of summer time on 2026-03-29: the last day of the range gets no bucket in any of the
  four series, and an issue created on that day is not counted. On a UTC host the same call
  has the bucket and counts the issue.
\<close>

theorem dailyCounts_last_day_missing:
  "(case calculateDailyCounts env_berlin [late_project] (js ''2026-01-30'') (js ''2026-03-30'') of
      Some (Inr data) \<Rightarrow>
        assigned data (js ''2026-01-30'') = Some 0 \<and>
        assigned data (js ''2026-03-29'') = Some 0 \<and>
        assigned data (js ''2026-03-30'') = None \<and>
        closed data (js ''2026-03-30'') = None \<and>
        merged_prs data (js ''2026-03-30'') = None \<and>
        open_prs data (js ''2026-03-30'') = None
    | _ \<Rightarrow> False) \<and>
   (case calculateDailyCounts env_utc [late_project] (js ''2026-01-30'') (js ''2026-03-30'') of
      Some (Inr data) \<Rightarrow>
        assigned data (js ''2026-03-29'') = Some 0 \<and>
        assigned data (js ''2026-03-30'') = Some 1
    | _ \<Rightarrow> False)"
  by code_simp

section \<open>Properties of the filters\<close>

lemma applyFilters_fold:
  assumes "\<forall>r\<in>set rs. r < length h"
  shows "foldl (applyFilters_step filters) (h, out) rs =
     (h @ map (\<lambda>r. extend_project filters (h ! r)) rs,
      out @ [length h ..< length h + length rs])"
  using assms
proof (induction rs arbitrary: h out)
  case Nil
  show ?case by simp
next
  case (Cons r rs)
  let ?h1 = "h @ [extend_project filters (h ! r)]"
  have step: "applyFilters_step filters (h, out) r = (?h1, out @ [length h])"
    by (simp add: applyFilters_step_def extend_project_def Let_def)
  from Cons.prems have b: "\<forall>r\<in>set rs. r < length ?h1" by auto
  from Cons.prems have "map (\<lambda>r. extend_project filters (?h1 ! r)) rs =
      map (\<lambda>r. extend_project filters (h ! r)) rs"
    by (auto simp: nth_append)
  moreover have "[length h ..< length h + length (r # rs)] =
      length h # [length ?h1 ..< length ?h1 + length rs]"
    using upt_conv_Cons [of "length h" "length h + length (r # rs)"]
    by (simp del: upt_Suc)
  moreover have "foldl (applyFilters_step filters) (h, out) (r # rs) =
      foldl (applyFilters_step filters) (?h1, out @ [length h]) rs"
    by (simp add: step)
  ultimately show ?case
    using Cons.IH [OF b, of "out @ [length h]"] by (simp del: upt_Suc)
qed

lemma applyFilters_eq:
  assumes "\<forall>r\<in>set projects. r < length h"
  shows "applyFilters h projects filters =
     (h @ map (\<lambda>r. extend_project filters (h ! r)) projects,
      [length h ..< length h + length projects])"
  using applyFilters_fold [OF assms, of filters "[]"] by (simp add: applyFilters_def)

lemma nth_tail_refs: "map (\<lambda>r. (a @ b) ! r) [length a ..< length a + length b] = b"
proof -
  have "[length a ..< length a + length b] = map (\<lambda>i. i + length a) [0 ..< length b]"
    by (simp add: map_add_upt add.commute)
  then have "map (\<lambda>r. (a @ b) ! r) [length a ..< length a + length b] =
      map (\<lambda>i. b ! i) [0 ..< length b]"
    by (simp add: comp_def nth_append del: upt_Suc)
  then show ?thesis by (simp add: map_nth)
qed

lemma filteredStats_extend_twice:
  "filteredStats (extend_project filters (extend_project filters p)) =
   filteredStats (extend_project filters p)"
  by (simp add: extend_project_def)

text \<open>
  Claim C10. Applying the same filters twice in succession to the same projects gives the
  same \<open>filteredStats\<close> both times. Each result is a new object, the project read extended by
  \<open>filteredIssues\<close> and \<open>filteredStats\<close>; the objects of the caller's store are left as they
  were. Applying the filters to the result of the first application gives the same
  \<open>filteredStats\<close> again.
\<close>

theorem applyFilters_idempotent:
  assumes "\<forall>r\<in>set projects. r < length h"
  shows "case applyFilters h projects filters of (h1, out1) \<Rightarrow>
           (case applyFilters h1 projects filters of (h2, out2) \<Rightarrow>
              map (\<lambda>r. filteredStats (h2 ! r)) out2 = map (\<lambda>r. filteredStats (h1 ! r)) out1 \<and>
              map (\<lambda>r. h1 ! r) out1 = map (\<lambda>r. extend_project filters (h ! r)) projects \<and>
              take (length h) h1 = h \<and> take (length h) h2 = h) \<and>
           (case applyFilters h1 out1 filters of (h3, out3) \<Rightarrow>
              map (\<lambda>r. filteredStats (h3 ! r)) out3 = map (\<lambda>r. filteredStats (h1 ! r)) out1 \<and>
              take (length h) h3 = h)"
proof -
  let ?new = "map (\<lambda>r. extend_project filters (h ! r)) projects"
  let ?h1 = "h @ ?new"
  let ?out1 = "[length h ..< length h + length projects]"
  have 1: "applyFilters h projects filters = (?h1, ?out1)"
    using assms by (rule applyFilters_eq)
  have read1: "map (\<lambda>r. ?h1 ! r) ?out1 = ?new"
    using nth_tail_refs [of h ?new] by simp
  from assms have in1: "\<forall>r\<in>set projects. r < length ?h1" by auto
  from assms have same: "map (\<lambda>r. extend_project filters (?h1 ! r)) projects = ?new"
    by (auto simp: nth_append)
  let ?h2 = "?h1 @ ?new"
  let ?out2 = "[length ?h1 ..< length ?h1 + length projects]"
  have 2: "applyFilters ?h1 projects filters = (?h2, ?out2)"
    using applyFilters_eq [OF in1, of filters] same by simp
  have read2: "map (\<lambda>r. ?h2 ! r) ?out2 = ?new"
    using nth_tail_refs [of ?h1 ?new] by simp
  have in3: "\<forall>r\<in>set ?out1. r < length ?h1" by auto
  let ?new3 = "map (\<lambda>r. extend_project filters (?h1 ! r)) ?out1"
  let ?h3 = "?h1 @ ?new3"
  let ?out3 = "[length ?h1 ..< length ?h1 + length ?out1]"
  have 3: "applyFilters ?h1 ?out1 filters = (?h3, ?out3)"
    using in3 by (rule applyFilters_eq)
  have read3: "map (\<lambda>r. ?h3 ! r) ?out3 = ?new3"
    using nth_tail_refs [of ?h1 ?new3] by simp
  have "?new3 = map (extend_project filters) (map (\<lambda>r. ?h1 ! r) ?out1)"
    by (simp only: map_map comp_def)
  then have new3: "?new3 = map (extend_project filters) ?new"
    by (simp only: read1)
  have s1: "map (\<lambda>r. filteredStats (?h1 ! r)) ?out1 = map filteredStats ?new"
    using arg_cong [OF read1, of "map filteredStats"] by (simp add: comp_def)
  have s2: "map (\<lambda>r. filteredStats (?h2 ! r)) ?out2 = map filteredStats ?new"
    using arg_cong [OF read2, of "map filteredStats"] by (simp add: comp_def)
  have s3: "map (\<lambda>r. filteredStats (?h3 ! r)) ?out3 = map filteredStats ?new3"
    using arg_cong [OF read3, of "map filteredStats"] by (simp add: comp_def)
  have s3': "map filteredStats ?new3 = map filteredStats ?new"
    unfolding new3 by (simp add: comp_def filteredStats_extend_twice)
  show ?thesis
    unfolding 1 prod.case 2 3
    using s1 s2 s3 s3' read1 by simp
qed

theorem applyFilters_idempotent_witness:
  "length demo_store = 2 \<and>
   (case applyFilters demo_store [0, 1] defaultFilters of (h1, out1) \<Rightarrow>
      map (\<lambda>r. filteredStats (h1 ! r)) out1 =
        [Val \<lparr>st_open = 3, st_closed = 0, st_assigned = 2, st_total = 3, st_points = 55,
              st_comments = 0\<rparr>,
         Val \<lparr>st_open = 1, st_closed = 0, st_assigned = 0, st_total = 1, st_points = 0,
              st_comments = 0\<rparr>]) \<and>
   (case applyFilters demo_store [0, 1] defaultFilters of (h1, out1) \<Rightarrow>
      (case applyFilters h1 [0, 1] defaultFilters of (h2, out2) \<Rightarrow>
         map (\<lambda>r. filteredStats (h2 ! r)) out2 = map (\<lambda>r. filteredStats (h1 ! r)) out1 \<and>
         map (\<lambda>r. h1 ! r) out1 =
           map (\<lambda>r. extend_project defaultFilters (demo_store ! r)) [0, 1] \<and>
         take (length demo_store) h1 = demo_store \<and>
         take (length demo_store) h2 = demo_store) \<and>
      (case applyFilters h1 out1 defaultFilters of (h3, out3) \<Rightarrow>
         map (\<lambda>r. filteredStats (h3 ! r)) out3 = map (\<lambda>r. filteredStats (h1 ! r)) out1 \<and>
         take (length demo_store) h3 = demo_store))"
proof -
  have l: "length demo_store = 2" by (simp add: demo_store_def)
  then have b: "\<forall>r\<in>set [0, 1]. r < length demo_store" by simp
  have v: "case applyFilters demo_store [0, 1] defaultFilters of (h1, out1) \<Rightarrow>
      map (\<lambda>r. filteredStats (h1 ! r)) out1 =
        [Val \<lparr>st_open = 3, st_closed = 0, st_assigned = 2, st_total = 3, st_points = 55,
              st_comments = 0\<rparr>,
         Val \<lparr>st_open = 1, st_closed = 0, st_assigned = 0, st_total = 1, st_points = 0,
              st_comments = 0\<rparr>]"
    by code_simp
  from applyFilters_idempotent [OF b, of defaultFilters] l v show ?thesis by blast
qed

end
